theory Spec2Isabelle
  imports Main "HOL-Library.AList" "HOL-Library.Char_ord" "HOL-Library.List_Lexorder"
begin

section \<open>Python values\<close>

text \<open>
  The storage backend inspects only a handful of entries of an execution state
  (\<^verbatim>\<open>status\<close>, \<^verbatim>\<open>step_index\<close>, \<^verbatim>\<open>step_name\<close>, \<^verbatim>\<open>timestamp\<close>, \<^verbatim>\<open>saved_at\<close>,
  \<^verbatim>\<open>error\<close>, \<^verbatim>\<open>execution_id\<close>). Their values are \<^verbatim>\<open>None\<close>, a \<^verbatim>\<open>str\<close> or an \<^verbatim>\<open>int\<close>.
  An \<^verbatim>\<open>ExecutionState\<close> is a Python \<^verbatim>\<open>dict\<close> with string keys: an association list
  in insertion order, read with \<open>map_of\<close> and written with \<open>AList.update\<close>
  (assignment keeps the position of an existing key and appends a new one).
\<close>

datatype pyval = PyNone | PyStr string | PyInt int

type_synonym ExecutionState = "(string \<times> pyval) list"

datatype error =
    ResponseError   \<comment> \<open>redis: WRONGTYPE, a command against a key of another type\<close>
  | DataError       \<comment> \<open>redis-py: a value that cannot be encoded\<close>
  | ValueError
  | TypeError
  | RuntimeError string

text \<open>Truthiness, as \<^verbatim>\<open>if x:\<close> and \<^verbatim>\<open>x or d\<close> read it.\<close>

fun truthy :: "pyval \<Rightarrow> bool" where
  "truthy PyNone = False"
| "truthy (PyStr s) = (s \<noteq> [])"
| "truthy (PyInt n) = (n \<noteq> 0)"

definition py_or :: "pyval \<Rightarrow> pyval \<Rightarrow> pyval" where
  "py_or x d = (if truthy x then x else d)"

text \<open>\<^verbatim>\<open>d.get(k)\<close> and \<^verbatim>\<open>d.get(k, default)\<close>.\<close>

definition py_get :: "ExecutionState \<Rightarrow> string \<Rightarrow> pyval" where
  "py_get d k = (case map_of d k of None \<Rightarrow> PyNone | Some v \<Rightarrow> v)"

definition py_get_default :: "ExecutionState \<Rightarrow> string \<Rightarrow> pyval \<Rightarrow> pyval" where
  "py_get_default d k dflt = (case map_of d k of None \<Rightarrow> dflt | Some v \<Rightarrow> v)"

text \<open>\<^verbatim>\<open>str(x)\<close>, which is also what an f-string writes for \<^verbatim>\<open>{x}\<close>.\<close>

definition digit_char :: "nat \<Rightarrow> char" where
  "digit_char d = ''0123456789'' ! d"

function string_of_nat :: "nat \<Rightarrow> string" where
  "string_of_nat n =
     (if n < 10 then [digit_char n] else string_of_nat (n div 10) @ [digit_char (n mod 10)])"
  by pat_completeness auto
termination
  by (relation "measure (\<lambda>n. n)") auto

declare string_of_nat.simps [simp del]

definition string_of_int :: "int \<Rightarrow> string" where
  "string_of_int i = (if i < 0 then CHR ''-'' # string_of_nat (nat (- i)) else string_of_nat (nat i))"

fun py_str :: "pyval \<Rightarrow> string" where
  "py_str PyNone = ''None''"
| "py_str (PyStr s) = s"
| "py_str (PyInt n) = string_of_int n"

text \<open>
  \<^verbatim>\<open>int(s)\<close> for a string of ASCII characters: surrounding whitespace is dropped, a
  sign may lead, and the digits may be grouped by single underscores. \<open>None\<close> stands
  for \<^verbatim>\<open>ValueError\<close>.
\<close>

definition is_space :: "char \<Rightarrow> bool" where
  "is_space c = (of_char c \<in> set [9, 10, 11, 12, 13, 28, 29, 30, 31, 32 :: nat])"

definition is_digit :: "char \<Rightarrow> bool" where
  "is_digit c = (48 \<le> (of_char c :: nat) \<and> (of_char c :: nat) \<le> 57)"

definition py_strip :: "string \<Rightarrow> string" where
  "py_strip s = rev (dropWhile is_space (rev (dropWhile is_space s)))"

fun digits_grouped :: "string \<Rightarrow> bool" where
  "digits_grouped [] = False"
| "digits_grouped [c] = is_digit c"
| "digits_grouped (c # d # cs) =
     (is_digit c \<and> (if d = CHR ''_'' then digits_grouped cs else digits_grouped (d # cs)))"

definition nat_of_digits :: "string \<Rightarrow> nat" where
  "nat_of_digits ds = foldl (\<lambda>n c. 10 * n + (of_char c - 48)) 0 ds"

definition py_int :: "string \<Rightarrow> int option" where
  "py_int s =
     (let t = py_strip s;
          negative = (t \<noteq> [] \<and> hd t = CHR ''-'');
          body = (if t \<noteq> [] \<and> (hd t = CHR ''-'' \<or> hd t = CHR ''+'') then tl t else t)
      in if digits_grouped body
         then Some ((if negative then - 1 else 1) * int (nat_of_digits (filter is_digit body)))
         else None)"

section \<open>The Redis server\<close>

text \<open>
  One keyspace; a key holds a string, a hash or a set. The keyspace and the hashes are
  association lists, a set is a list without duplicates: the order of the lists stands
  for the order in which the server happens to enumerate keys and members, which Redis
  leaves open. A command against a key that holds another type is answered with a
  WRONGTYPE error and changes nothing. An operation that raises returns the error alone:
  what it had written before it raised is not followed.
\<close>

datatype rvalue = RString string | RHash "(string \<times> string) list" | RSet "string list"

type_synonym redis = "(string \<times> rvalue) list"

datatype command =
    SET string string
  | HSET string "(string \<times> string) list"
  | SADD string string
  | SREM string string
  | DEL string

datatype reply = ReplyOK | ReplyInt nat | ReplyError

definition hset_fields :: "(string \<times> string) list \<Rightarrow> (string \<times> string) list \<Rightarrow> (string \<times> string) list" where
  "hset_fields m h = fold (\<lambda>(f, v). AList.update f v) m h"

fun redis_command :: "command \<Rightarrow> redis \<Rightarrow> reply \<times> redis" where
  "redis_command (SET k v) r = (ReplyOK, AList.update k (RString v) r)"
| "redis_command (HSET k m) r =
     (case map_of r k of
        None \<Rightarrow> (ReplyInt (length (hset_fields m [])), AList.update k (RHash (hset_fields m [])) r)
      | Some (RHash h) \<Rightarrow>
          (ReplyInt (length (hset_fields m h) - length h), AList.update k (RHash (hset_fields m h)) r)
      | Some _ \<Rightarrow> (ReplyError, r))"
| "redis_command (SADD k x) r =
     (case map_of r k of
        None \<Rightarrow> (ReplyInt 1, AList.update k (RSet [x]) r)
      | Some (RSet xs) \<Rightarrow>
          (if x \<in> set xs then (ReplyInt 0, r) else (ReplyInt 1, AList.update k (RSet (xs @ [x])) r))
      | Some _ \<Rightarrow> (ReplyError, r))"
| "redis_command (SREM k x) r =
     (case map_of r k of
        None \<Rightarrow> (ReplyInt 0, r)
      | Some (RSet xs) \<Rightarrow>
          (if x \<in> set xs
           then (ReplyInt 1,
                 if removeAll x xs = [] then AList.delete k r
                 else AList.update k (RSet (removeAll x xs)) r)
           else (ReplyInt 0, r))
      | Some _ \<Rightarrow> (ReplyError, r))"
| "redis_command (DEL k) r =
     (case map_of r k of
        None \<Rightarrow> (ReplyInt 0, r)
      | Some _ \<Rightarrow> (ReplyInt 1, AList.delete k r))"

text \<open>
  A pipeline queues its commands and \<^verbatim>\<open>execute()\<close> runs them all, in order; a command
  that fails does not stop or undo the others, and \<^verbatim>\<open>execute()\<close> raises afterwards.
\<close>

fun pipe_run :: "command list \<Rightarrow> redis \<Rightarrow> reply list \<times> redis" where
  "pipe_run [] r = ([], r)"
| "pipe_run (c # cs) r =
     (case redis_command c r of (x, r') \<Rightarrow>
        (case pipe_run cs r' of (xs, r'') \<Rightarrow> (x # xs, r'')))"

definition pipe_execute :: "command list \<Rightarrow> redis \<Rightarrow> error + (reply list \<times> redis)" where
  "pipe_execute cs r =
     (case pipe_run cs r of (results, r') \<Rightarrow>
        if ReplyError \<in> set results then Inl ResponseError else Inr (results, r'))"

text \<open>Commands sent on their own.\<close>

definition redis_get :: "string \<Rightarrow> redis \<Rightarrow> error + string option" where
  "redis_get k r =
     (case map_of r k of
        None \<Rightarrow> Inr None
      | Some (RString v) \<Rightarrow> Inr (Some v)
      | Some _ \<Rightarrow> Inl ResponseError)"

definition redis_smembers :: "string \<Rightarrow> redis \<Rightarrow> error + string list" where
  "redis_smembers k r =
     (case map_of r k of
        None \<Rightarrow> Inr []
      | Some (RSet xs) \<Rightarrow> Inr xs
      | Some _ \<Rightarrow> Inl ResponseError)"

definition redis_hgetall :: "string \<Rightarrow> redis \<Rightarrow> error + (string \<times> string) list" where
  "redis_hgetall k r =
     (case map_of r k of
        None \<Rightarrow> Inr []
      | Some (RHash h) \<Rightarrow> Inr h
      | Some _ \<Rightarrow> Inl ResponseError)"

definition redis_delete :: "string \<Rightarrow> redis \<Rightarrow> redis" where
  "redis_delete k r = snd (redis_command (DEL k) r)"

definition redis_sadd :: "string \<Rightarrow> string \<Rightarrow> redis \<Rightarrow> error + redis" where
  "redis_sadd k x r =
     (case redis_command (SADD k x) r of
        (ReplyError, _) \<Rightarrow> Inl ResponseError
      | (_, r') \<Rightarrow> Inr r')"

text \<open>
  \<^verbatim>\<open>scan_iter(match=p + "*")\<close>: the keys that start with \<open>p\<close>, for a \<open>p\<close> without glob
  characters (the default prefix \<^verbatim>\<open>durable_exec:\<close> has none).
\<close>

definition redis_scan_iter :: "string \<Rightarrow> redis \<Rightarrow> string list" where
  "redis_scan_iter p r = filter (\<lambda>k. take (length p) k = p) (remdups (map fst r))"

section \<open>RedisDurableStorage\<close>

text \<open>
  The functions that the backend calls and whose code is not among the sources are
  parameters: \<^verbatim>\<open>json.dumps\<close>; \<^verbatim>\<open>json.loads\<close>, which raises \<^verbatim>\<open>JSONDecodeError\<close>
  (\<open>None\<close>) or returns a value, a JSON object or any other JSON value, kept as its
  text; \<^verbatim>\<open>datetime.fromisoformat\<close>; and the constructor of \<^verbatim>\<open>ExecutionState\<close>, a class
  of \<^verbatim>\<open>storage.py\<close>. Of a JSON object the constructor makes the dictionary itself. Of
  a value that is not an object it makes what \<open>ExecutionState_init\<close> says: it raises
  \<^verbatim>\<open>TypeError\<close> or \<^verbatim>\<open>ValueError\<close> (as \<^verbatim>\<open>dict\<close> does of \<^verbatim>\<open>None\<close>, a number or
  \<^verbatim>\<open>[1, 2]\<close>), or builds a state (as \<^verbatim>\<open>dict\<close> does of an empty list).
\<close>

datatype datetime = Naive int | Aware int
  \<comment> \<open>microseconds: wall-clock time without an offset, or the instant in UTC\<close>

datatype json_value = JsonObject ExecutionState | JsonOther string

datatype construction = Built ExecutionState | RaisesTypeError | RaisesValueError

record pylib =
  json_dumps :: "ExecutionState \<Rightarrow> string"
  json_loads :: "string \<Rightarrow> json_value option"
  ExecutionState_init :: "string \<Rightarrow> construction"
  fromisoformat :: "string \<Rightarrow> datetime option"

record RedisDurableStorage =
  prefix :: string

definition make_key :: "RedisDurableStorage \<Rightarrow> string \<Rightarrow> string" where
  "make_key self execution_id = prefix self @ execution_id"

definition make_metadata_key :: "RedisDurableStorage \<Rightarrow> string \<Rightarrow> string" where
  "make_metadata_key self execution_id = prefix self @ ''meta:'' @ execution_id"

definition make_index_key :: "RedisDurableStorage \<Rightarrow> string \<Rightarrow> string" where
  "make_index_key self status = prefix self @ ''index:'' @ status"

text \<open>
  \<^verbatim>\<open>save_state_async\<close>. The two assignments under \<^verbatim>\<open># Add metadata\<close> are
  \<open>add_metadata\<close>; \<open>now\<close> is \<^verbatim>\<open>datetime.now(timezone.utc).isoformat()\<close>.
  redis-py encodes a \<^verbatim>\<open>str\<close> as it is and an \<^verbatim>\<open>int\<close> by its decimal digits, and
  refuses \<^verbatim>\<open>None\<close>.
\<close>

definition add_metadata :: "string \<Rightarrow> string \<Rightarrow> ExecutionState \<Rightarrow> ExecutionState" where
  "add_metadata now execution_id state =
     AList.update ''execution_id'' (PyStr execution_id)
       (AList.update ''saved_at'' (PyStr now) state)"

definition metadata_of :: "string \<Rightarrow> ExecutionState \<Rightarrow> (string \<times> pyval) list" where
  "metadata_of execution_id state =
     filter (\<lambda>(k, v). v \<noteq> PyNone)
       [(''execution_id'', PyStr execution_id),
        (''status'', py_or (py_get state ''status'') (PyStr ''running'')),
        (''step_index'', PyStr (py_str (py_get_default state ''step_index'' (PyInt 0)))),
        (''step_name'', py_or (py_get state ''step_name'') (PyStr ''unknown'')),
        (''timestamp'', py_or (py_get state ''timestamp'') (PyStr '''')),
        (''saved_at'', py_or (py_get state ''saved_at'') (PyStr '''')),
        (''error'', py_or (py_get state ''error'') (PyStr ''''))]"

fun redis_encode :: "pyval \<Rightarrow> error + string" where
  "redis_encode PyNone = Inl DataError"
| "redis_encode (PyStr s) = Inr s"
| "redis_encode (PyInt n) = Inr (string_of_int n)"

fun encode_mapping :: "(string \<times> pyval) list \<Rightarrow> error + (string \<times> string) list" where
  "encode_mapping [] = Inr []"
| "encode_mapping ((k, v) # kvs) =
     (case redis_encode v of
        Inl e \<Rightarrow> Inl e
      | Inr s \<Rightarrow> (case encode_mapping kvs of Inl e \<Rightarrow> Inl e | Inr m \<Rightarrow> Inr ((k, s) # m)))"

definition save_state_async ::
  "pylib \<Rightarrow> RedisDurableStorage \<Rightarrow> string \<Rightarrow> string \<Rightarrow> ExecutionState \<Rightarrow> redis \<Rightarrow> error + redis" where
  "save_state_async lib self now execution_id state0 r =
     (let state = add_metadata now execution_id state0;
          state_json = json_dumps lib state;
          key = make_key self execution_id;
          metadata_key = make_metadata_key self execution_id
      in case encode_mapping (metadata_of execution_id state) of
           Inl e \<Rightarrow> Inl e
         | Inr metadata \<Rightarrow>
             (let status = py_get_default state ''status'' (PyStr ''running'');
                  index_key = make_index_key self (py_str status)
              in case pipe_execute
                        [SET key state_json, HSET metadata_key metadata, SADD index_key execution_id] r of
                   Inl e \<Rightarrow> Inl e
                 | Inr (results, r') \<Rightarrow> Inr r'))"

text \<open>
  \<^verbatim>\<open>load_state_async\<close>: \<open>Inr None\<close> is Python's \<^verbatim>\<open>None\<close>. The \<^verbatim>\<open>except\<close> clause
  catches \<^verbatim>\<open>json.JSONDecodeError\<close> only: what \<^verbatim>\<open>ExecutionState(state)\<close> raises leaves
  the function.
\<close>

definition load_state_async ::
  "pylib \<Rightarrow> RedisDurableStorage \<Rightarrow> string \<Rightarrow> redis \<Rightarrow> error + ExecutionState option" where
  "load_state_async lib self execution_id r =
     (case redis_get (make_key self execution_id) r of
        Inl e \<Rightarrow> Inl e
      | Inr None \<Rightarrow> Inr None
      | Inr (Some state_json) \<Rightarrow>
          (case json_loads lib state_json of
             None \<Rightarrow> Inr None
           | Some (JsonObject state) \<Rightarrow> Inr (Some state)
           | Some (JsonOther state) \<Rightarrow>
               (case ExecutionState_init lib state of
                  Built d \<Rightarrow> Inr (Some d)
                | RaisesTypeError \<Rightarrow> Inl TypeError
                | RaisesValueError \<Rightarrow> Inl ValueError)))"

text \<open>
  \<^verbatim>\<open>delete_state_async\<close>. \<^verbatim>\<open>if state:\<close> holds for a state that is neither \<^verbatim>\<open>None\<close>
  nor the empty dictionary; the result is \<^verbatim>\<open>any(r > 0 ...)\<close> over the replies.
\<close>

definition state_truthy :: "ExecutionState option \<Rightarrow> bool" where
  "state_truthy state = (case state of None \<Rightarrow> False | Some d \<Rightarrow> d \<noteq> [])"

fun reply_positive :: "reply \<Rightarrow> bool" where
  "reply_positive (ReplyInt n) = (n > 0)"
| "reply_positive ReplyOK = True"
| "reply_positive ReplyError = False"

definition delete_state_async ::
  "pylib \<Rightarrow> RedisDurableStorage \<Rightarrow> string \<Rightarrow> redis \<Rightarrow> error + (bool \<times> redis)" where
  "delete_state_async lib self execution_id r =
     (case load_state_async lib self execution_id r of
        Inl e \<Rightarrow> Inl e
      | Inr state \<Rightarrow>
          (let key = make_key self execution_id;
               metadata_key = make_metadata_key self execution_id;
               cmds = [DEL key, DEL metadata_key] @
                      (if state_truthy state
                       then [SREM (make_index_key self
                                     (py_str (py_get_default (the state) ''status'' (PyStr ''running''))))
                                  execution_id]
                       else [])
           in case pipe_execute cmds r of
                Inl e \<Rightarrow> Inl e
              | Inr (results, r') \<Rightarrow> Inr (list_ex reply_positive results, r')))"

text \<open>
  \<^verbatim>\<open>list_executions_async\<close>. An entry of the result is a dictionary with seven fixed
  keys. \<^verbatim>\<open>result.sort(key=..., reverse=True)\<close> is a stable sort that keeps the given
  order among equal keys; it raises \<^verbatim>\<open>TypeError\<close> when it has to compare a timestamp
  that is \<^verbatim>\<open>None\<close>, which is whenever one occurs among two or more entries
  (\<open>timestamp_key\<close> reads \<^verbatim>\<open>None\<close> as the empty string for the one entry that is
  never compared). The identifiers are visited in the order the server lists them.
\<close>

record metadata_entry =
  entry_execution_id :: string
  entry_status :: "string option"
  entry_step_index :: int
  entry_step_name :: "string option"
  entry_timestamp :: "string option"
  entry_saved_at :: "string option"
  entry_error :: "string option"

definition entry_of :: "string \<Rightarrow> (string \<times> string) list \<Rightarrow> error + metadata_entry" where
  "entry_of execution_id metadata =
     (case (case map_of metadata ''step_index'' of None \<Rightarrow> Some 0 | Some text \<Rightarrow> py_int text) of
        None \<Rightarrow> Inl ValueError
      | Some n \<Rightarrow>
          Inr \<lparr>entry_execution_id =
                 (case map_of metadata ''execution_id'' of None \<Rightarrow> execution_id | Some v \<Rightarrow> v),
               entry_status = map_of metadata ''status'',
               entry_step_index = n,
               entry_step_name = map_of metadata ''step_name'',
               entry_timestamp = map_of metadata ''timestamp'',
               entry_saved_at = map_of metadata ''saved_at'',
               entry_error = map_of metadata ''error''\<rparr>)"

fun fetch_metadata :: "RedisDurableStorage \<Rightarrow> redis \<Rightarrow> string list \<Rightarrow> error + metadata_entry list" where
  "fetch_metadata self r [] = Inr []"
| "fetch_metadata self r (execution_id # ids) =
     (case redis_hgetall (make_metadata_key self execution_id) r of
        Inl e \<Rightarrow> Inl e
      | Inr metadata \<Rightarrow>
          if metadata \<noteq> []
          then (case entry_of execution_id metadata of
                  Inl e \<Rightarrow> Inl e
                | Inr entry \<Rightarrow>
                    (case fetch_metadata self r ids of
                       Inl e \<Rightarrow> Inl e
                     | Inr result \<Rightarrow> Inr (entry # result)))
          else fetch_metadata self r ids)"

definition timestamp_key :: "metadata_entry \<Rightarrow> string" where
  "timestamp_key x = (case entry_timestamp x of None \<Rightarrow> [] | Some t \<Rightarrow> t)"

definition sort_by_timestamp_desc :: "metadata_entry list \<Rightarrow> error + metadata_entry list" where
  "sort_by_timestamp_desc result =
     (if 2 \<le> length result \<and> list_ex (\<lambda>x. entry_timestamp x = None) result
      then Inl TypeError
      else Inr (rev (sort_key timestamp_key (rev result))))"

definition py_slice_to :: "int \<Rightarrow> 'a list \<Rightarrow> 'a list" where
  "py_slice_to n xs = (if 0 \<le> n then take (nat n) xs else take (length xs - nat (- n)) xs)"

definition listed_ids :: "RedisDurableStorage \<Rightarrow> string option \<Rightarrow> redis \<Rightarrow> error + string list" where
  "listed_ids self status r =
     (if status \<noteq> None \<and> status \<noteq> Some []
      then redis_smembers (make_index_key self (the status)) r
      else Inr (remdups (map (drop (length (prefix self @ ''meta:'')))
                          (redis_scan_iter (prefix self @ ''meta:'') r))))"

definition list_executions_async ::
  "RedisDurableStorage \<Rightarrow> string option \<Rightarrow> int option \<Rightarrow> redis \<Rightarrow> error + metadata_entry list" where
  "list_executions_async self status limit r =
     (case listed_ids self status r of
        Inl e \<Rightarrow> Inl e
      | Inr execution_ids \<Rightarrow>
          (case fetch_metadata self r execution_ids of
             Inl e \<Rightarrow> Inl e
           | Inr result \<Rightarrow>
               (case sort_by_timestamp_desc result of
                  Inl e \<Rightarrow> Inl e
                | Inr sorted_result \<Rightarrow>
                    if limit \<noteq> None \<and> limit \<noteq> Some 0
                    then Inr (py_slice_to (the limit) sorted_result)
                    else Inr sorted_result)))"

text \<open>\<^verbatim>\<open>clear_all_indexes\<close> and \<^verbatim>\<open>rebuild_indexes\<close>, over the four statuses the code lists.\<close>

definition statuses :: "string list" where
  "statuses = [''running'', ''paused'', ''completed'', ''failed'']"

definition clear_all_indexes :: "RedisDurableStorage \<Rightarrow> redis \<Rightarrow> redis" where
  "clear_all_indexes self r = fold (\<lambda>status. redis_delete (make_index_key self status)) statuses r"

fun rebuild_from :: "RedisDurableStorage \<Rightarrow> string list \<Rightarrow> redis \<Rightarrow> error + redis" where
  "rebuild_from self [] r = Inr r"
| "rebuild_from self (metadata_key # keys) r =
     (case redis_hgetall metadata_key r of
        Inl e \<Rightarrow> Inl e
      | Inr metadata \<Rightarrow>
          (case (map_of metadata ''status'', map_of metadata ''execution_id'') of
             (Some status, Some execution_id) \<Rightarrow>
               if status \<noteq> [] \<and> execution_id \<noteq> []
               then (case redis_sadd (make_index_key self status) execution_id r of
                       Inl e \<Rightarrow> Inl e
                     | Inr r' \<Rightarrow> rebuild_from self keys r')
               else rebuild_from self keys r
           | _ \<Rightarrow> rebuild_from self keys r))"

definition rebuild_indexes :: "RedisDurableStorage \<Rightarrow> redis \<Rightarrow> error + redis" where
  "rebuild_indexes self r =
     (let r0 = clear_all_indexes self r
      in rebuild_from self (redis_scan_iter (prefix self @ ''meta:'') r0) r0)"

text \<open>
  \<^verbatim>\<open>cleanup_old_executions_async\<close>. \<open>now\<close> is \<^verbatim>\<open>datetime.now(timezone.utc)\<close> in
  microseconds. A timestamp that is missing, empty or refused by \<^verbatim>\<open>fromisoformat\<close> is
  passed over. The deletion is inside the \<^verbatim>\<open>try\<close> block, so a \<^verbatim>\<open>ValueError\<close> out of it
  is passed over too; any other error is not caught.
\<close>

definition replace_Z :: "string \<Rightarrow> string" where
  "replace_Z s = concat (map (\<lambda>c. if c = CHR ''Z'' then ''+00:00'' else [c]) s)"

fun as_utc :: "datetime \<Rightarrow> int" where
  "as_utc (Naive t) = t"
| "as_utc (Aware t) = t"

fun cleanup_ids ::
  "pylib \<Rightarrow> RedisDurableStorage \<Rightarrow> int \<Rightarrow> string list \<Rightarrow> int \<Rightarrow> redis \<Rightarrow> error + (int \<times> redis)" where
  "cleanup_ids lib self cutoff_date [] deleted_count r = Inr (deleted_count, r)"
| "cleanup_ids lib self cutoff_date (execution_id # ids) deleted_count r =
     (case redis_hgetall (make_metadata_key self execution_id) r of
        Inl e \<Rightarrow> Inl e
      | Inr metadata \<Rightarrow>
          (case map_of metadata ''timestamp'' of
             None \<Rightarrow> cleanup_ids lib self cutoff_date ids deleted_count r
           | Some timestamp_str \<Rightarrow>
               if timestamp_str = [] then cleanup_ids lib self cutoff_date ids deleted_count r
               else (case fromisoformat lib (replace_Z timestamp_str) of
                       None \<Rightarrow> cleanup_ids lib self cutoff_date ids deleted_count r
                     | Some timestamp \<Rightarrow>
                         if as_utc timestamp < cutoff_date
                         then (case delete_state_async lib self execution_id r of
                                 Inl e \<Rightarrow>
                                   if e = ValueError
                                   then cleanup_ids lib self cutoff_date ids deleted_count r
                                   else Inl e
                               | Inr (deleted, r') \<Rightarrow>
                                   cleanup_ids lib self cutoff_date ids
                                     (if deleted then deleted_count + 1 else deleted_count) r')
                         else cleanup_ids lib self cutoff_date ids deleted_count r)))"

fun cleanup_statuses ::
  "pylib \<Rightarrow> RedisDurableStorage \<Rightarrow> int \<Rightarrow> string list \<Rightarrow> int \<Rightarrow> redis \<Rightarrow> error + (int \<times> redis)" where
  "cleanup_statuses lib self cutoff_date [] deleted_count r = Inr (deleted_count, r)"
| "cleanup_statuses lib self cutoff_date (status # rest) deleted_count r =
     (case redis_smembers (make_index_key self status) r of
        Inl e \<Rightarrow> Inl e
      | Inr execution_ids \<Rightarrow>
          (case cleanup_ids lib self cutoff_date execution_ids deleted_count r of
             Inl e \<Rightarrow> Inl e
           | Inr (deleted_count', r') \<Rightarrow> cleanup_statuses lib self cutoff_date rest deleted_count' r'))"

definition cleanup_old_executions_async ::
  "pylib \<Rightarrow> RedisDurableStorage \<Rightarrow> int \<Rightarrow> int \<Rightarrow> redis \<Rightarrow> error + (int \<times> redis)" where
  "cleanup_old_executions_async lib self now older_than_days r =
     (let cutoff_date = now - older_than_days * 86400000000
      in cleanup_statuses lib self cutoff_date [''completed'', ''failed''] 0 r)"

section \<open>Reading the store\<close>

text \<open>
  What the status index of \<open>status\<close> and the metadata hash of \<open>execution_id\<close> hold,
  as \<^verbatim>\<open>smembers\<close> and \<^verbatim>\<open>hgetall\<close> report them.
\<close>

definition in_status_index :: "RedisDurableStorage \<Rightarrow> redis \<Rightarrow> string \<Rightarrow> string \<Rightarrow> bool" where
  "in_status_index self r status execution_id =
     (case redis_smembers (make_index_key self status) r of
        Inl e \<Rightarrow> False
      | Inr members \<Rightarrow> execution_id \<in> set members)"

definition metadata_status :: "RedisDurableStorage \<Rightarrow> redis \<Rightarrow> string \<Rightarrow> string option" where
  "metadata_status self r execution_id =
     (case redis_hgetall (make_metadata_key self execution_id) r of
        Inl e \<Rightarrow> None
      | Inr metadata \<Rightarrow> map_of metadata ''status'')"

text \<open>
  The members of the status index of \<open>status\<close>, and the condition that every metadata
  hash carries the identifier of its own key, as \<^verbatim>\<open>save_state_async\<close> writes it.
\<close>

definition index_members :: "RedisDurableStorage \<Rightarrow> redis \<Rightarrow> string \<Rightarrow> string set" where
  "index_members self r status =
     (case map_of r (make_index_key self status) of Some (RSet xs) \<Rightarrow> set xs | _ \<Rightarrow> {})"

definition metadata_own_id :: "RedisDurableStorage \<Rightarrow> redis \<Rightarrow> bool" where
  "metadata_own_id self r =
     list_all (\<lambda>k. case map_of r k of
                      Some (RHash h) \<Rightarrow>
                        map_of h ''execution_id'' = Some (drop (length (prefix self @ ''meta:'')) k)
                    | _ \<Rightarrow> True)
              (redis_scan_iter (prefix self @ ''meta:'') r)"

definition is_metadata_key :: "RedisDurableStorage \<Rightarrow> string \<Rightarrow> bool" where
  "is_metadata_key self k = (take (length (prefix self @ ''meta:'')) k = prefix self @ ''meta:'')"

text \<open>Entries in descending order of their timestamps.\<close>

definition by_timestamp_desc :: "metadata_entry list \<Rightarrow> bool" where
  "by_timestamp_desc xs = sorted_wrt (\<lambda>x y. timestamp_key y \<le> timestamp_key x) xs"

text \<open>The key a command addresses, and whether it replaces whatever the key holds.\<close>

fun command_key :: "command \<Rightarrow> string" where
  "command_key (SET k v) = k"
| "command_key (HSET k m) = k"
| "command_key (SADD k x) = k"
| "command_key (SREM k x) = k"
| "command_key (DEL k) = k"

fun is_overwrite :: "command \<Rightarrow> bool" where
  "is_overwrite (SET k v) = True"
| "is_overwrite (DEL k) = True"
| "is_overwrite c = False"

fun is_removal :: "command \<Rightarrow> bool" where
  "is_removal (DEL k) = True"
| "is_removal (SREM k x) = True"
| "is_removal c = False"

text \<open>
  A library for concrete runs: JSON objects and ISO timestamps are looked up in a table
  of the texts that occur in the run. \<open>non_objects\<close> are JSON texts of values that are
  not objects, with what \<^verbatim>\<open>dict\<close> makes of each value.
\<close>

definition non_objects :: "(string \<times> construction) list" where
  "non_objects =
     [(''null'', RaisesTypeError), (''true'', RaisesTypeError), (''5'', RaisesTypeError),
      (''[1, 2]'', RaisesTypeError), ([CHR 0x22, CHR ''a'', CHR ''b'', CHR ''c'', CHR 0x22], RaisesValueError),
      (''[]'', Built [])]"

definition table_lib :: "(string \<times> ExecutionState) list \<Rightarrow> (string \<times> datetime) list \<Rightarrow> pylib" where
  "table_lib docs stamps =
     \<lparr>json_dumps = (\<lambda>state. case find (\<lambda>(text, s). s = state) docs of
                               None \<Rightarrow> ''null'' | Some (text, s) \<Rightarrow> text),
      json_loads = (\<lambda>text. case map_of docs text of
                               Some state \<Rightarrow> Some (JsonObject state)
                             | None \<Rightarrow> if text \<in> fst ` set non_objects then Some (JsonOther text) else None),
      ExecutionState_init = (\<lambda>text. case map_of non_objects text of
                               None \<Rightarrow> RaisesTypeError | Some made \<Rightarrow> made),
      fromisoformat = map_of stamps\<rparr>"

section \<open>DurableExecution\<close>

text \<open>
  The manager of one execution. Its \<^verbatim>\<open>debug\<close> flag only switches log lines on,
  which change nothing in the store.
\<close>

record DurableExecution =
  storage :: RedisDurableStorage
  execution_id :: string
  auto_cleanup :: bool
  debug :: bool

definition mark_completed_async :: "pylib \<Rightarrow> DurableExecution \<Rightarrow> string \<Rightarrow> redis \<Rightarrow> error + redis" where
  "mark_completed_async lib self now r =
     (if auto_cleanup self
      then (case delete_state_async lib (storage self) (execution_id self) r of
              Inl e \<Rightarrow> Inl e
            | Inr (deleted, r') \<Rightarrow> Inr r')
      else (case load_state_async lib (storage self) (execution_id self) r of
              Inl e \<Rightarrow> Inl e
            | Inr state \<Rightarrow>
                if state_truthy state
                then save_state_async lib (storage self) now (execution_id self)
                       (AList.update ''status'' (PyStr ''completed'') (the state)) r
                else Inr r))"

definition mark_failed_async :: "pylib \<Rightarrow> DurableExecution \<Rightarrow> string \<Rightarrow> string \<Rightarrow> redis \<Rightarrow> error + redis" where
  "mark_failed_async lib self now err r =
     (case load_state_async lib (storage self) (execution_id self) r of
        Inl e \<Rightarrow> Inl e
      | Inr state \<Rightarrow>
          if state_truthy state
          then save_state_async lib (storage self) now (execution_id self)
                 (AList.update ''error'' (PyStr err) (AList.update ''status'' (PyStr ''failed'') (the state))) r
          else Inr r)"

text \<open>
  The coroutines of the manager. \<^verbatim>\<open>save_checkpoint_async\<close> is given the state that the
  serializer made of its arguments; \<^verbatim>\<open>load_checkpoint_async\<close> hands the loaded state to
  the serializer's \<^verbatim>\<open>deserialize_state\<close>, a parameter.
\<close>

definition save_checkpoint_async :: "pylib \<Rightarrow> DurableExecution \<Rightarrow> string \<Rightarrow> ExecutionState \<Rightarrow> redis \<Rightarrow> error + redis" where
  "save_checkpoint_async lib self now state r =
     save_state_async lib (storage self) now (execution_id self) state r"

definition load_checkpoint_async ::
  "pylib \<Rightarrow> (ExecutionState \<Rightarrow> 'd) \<Rightarrow> DurableExecution \<Rightarrow> redis \<Rightarrow> error + 'd option" where
  "load_checkpoint_async lib deserialize_state self r =
     (case load_state_async lib (storage self) (execution_id self) r of
        Inl e \<Rightarrow> Inl e
      | Inr None \<Rightarrow> Inr None
      | Inr (Some state) \<Rightarrow> Inr (Some (deserialize_state state)))"

definition get_execution_info_async :: "pylib \<Rightarrow> DurableExecution \<Rightarrow> redis \<Rightarrow> error + ExecutionState option" where
  "get_execution_info_async lib self r =
     (case load_state_async lib (storage self) (execution_id self) r of
        Inl e \<Rightarrow> Inl e
      | Inr state \<Rightarrow>
          if \<not> state_truthy state then Inr None
          else Inr (Some [(''execution_id'', PyStr (execution_id self)),
                          (''status'', py_get (the state) ''status''),
                          (''step_index'', py_get (the state) ''step_index''),
                          (''step_name'', py_get (the state) ''step_name''),
                          (''timestamp'', py_get (the state) ''timestamp''),
                          (''saved_at'', py_get (the state) ''saved_at''),
                          (''error'', py_get (the state) ''error'')]))"

text \<open>
  \<^verbatim>\<open>load_by_id_async\<close>; \<open>generated\<close> is the identifier \<^verbatim>\<open>__init__\<close> would generate, which
  it takes when the given one is empty.
\<close>

definition load_by_id_async ::
  "pylib \<Rightarrow> string \<Rightarrow> string \<Rightarrow> RedisDurableStorage \<Rightarrow> redis \<Rightarrow> error + DurableExecution option" where
  "load_by_id_async lib generated eid st r =
     (case load_state_async lib st eid r of
        Inl e \<Rightarrow> Inl e
      | Inr None \<Rightarrow> Inr None
      | Inr (Some state) \<Rightarrow>
          Inr (Some \<lparr>storage = st, execution_id = (if eid \<noteq> [] then eid else generated),
                     auto_cleanup = False, debug = False\<rparr>))"

text \<open>
  The synchronous wrappers. What \<^verbatim>\<open>asyncio.get_event_loop()\<close> finds in the calling
  thread is a parameter: no loop (it raises \<^verbatim>\<open>RuntimeError\<close>), a loop that is not
  running, or the running loop of the caller. \<^verbatim>\<open>run_until_complete\<close> and (outside a
  running loop) \<^verbatim>\<open>asyncio.run\<close> run the coroutine to its end; \<^verbatim>\<open>asyncio.run\<close> raises
  \<^verbatim>\<open>RuntimeError\<close> inside a running loop; \<^verbatim>\<open>asyncio.create_task\<close> hands the coroutine to
  the running loop and returns, so the wrapper returns before the coroutine has run.
\<close>

datatype event_loop = NoEventLoop | IdleLoop | RunningLoop

datatype 'a outcome = Returned 'a | TaskCreated | Raised error

definition asyncio_run :: "event_loop \<Rightarrow> (redis \<Rightarrow> error + 'a \<times> redis) \<Rightarrow> redis \<Rightarrow> 'a outcome \<times> redis" where
  "asyncio_run loop coro r =
     (if loop = RunningLoop
      then (Raised (RuntimeError ''asyncio.run() cannot be called from a running event loop''), r)
      else (case coro r of Inl e \<Rightarrow> (Raised e, r) | Inr (x, r') \<Rightarrow> (Returned x, r')))"

definition is_RuntimeError :: "error \<Rightarrow> bool" where
  "is_RuntimeError e = (case e of RuntimeError m \<Rightarrow> True | _ \<Rightarrow> False)"

definition run_until_complete :: "(redis \<Rightarrow> error + 'a \<times> redis) \<Rightarrow> redis \<Rightarrow> 'a outcome \<times> redis" where
  "run_until_complete coro r =
     (case coro r of Inl e \<Rightarrow> (Raised e, r) | Inr (x, r') \<Rightarrow> (Returned x, r'))"

text \<open>A coroutine that changes the store and returns nothing, and one that only reads.\<close>

definition writes :: "(redis \<Rightarrow> error + redis) \<Rightarrow> redis \<Rightarrow> error + unit \<times> redis" where
  "writes f r = (case f r of Inl e \<Rightarrow> Inl e | Inr r' \<Rightarrow> Inr ((), r'))"

definition reads :: "(redis \<Rightarrow> error + 'a) \<Rightarrow> redis \<Rightarrow> error + 'a \<times> redis" where
  "reads f r = (case f r of Inl e \<Rightarrow> Inl e | Inr x \<Rightarrow> Inr (x, r))"

text \<open>
  \<^verbatim>\<open>save_checkpoint\<close>, \<^verbatim>\<open>mark_completed\<close> and \<^verbatim>\<open>mark_failed\<close> create a task in a
  running loop. A \<^verbatim>\<open>RuntimeError\<close> out of the \<^verbatim>\<open>try\<close> block is answered by
  \<^verbatim>\<open>asyncio.run\<close> on a new coroutine.
\<close>

definition save_checkpoint ::
  "pylib \<Rightarrow> DurableExecution \<Rightarrow> event_loop \<Rightarrow> string \<Rightarrow> ExecutionState \<Rightarrow> redis \<Rightarrow> unit outcome \<times> redis" where
  "save_checkpoint lib self loop now state r =
     (case loop of
        NoEventLoop \<Rightarrow> asyncio_run loop (writes (save_checkpoint_async lib self now state)) r
      | RunningLoop \<Rightarrow> (TaskCreated, r)
      | IdleLoop \<Rightarrow>
          (case run_until_complete (writes (save_checkpoint_async lib self now state)) r of
             (Raised e, r') \<Rightarrow>
               if is_RuntimeError e
               then asyncio_run loop (writes (save_checkpoint_async lib self now state)) r'
               else (Raised e, r')
           | result \<Rightarrow> result))"

definition mark_completed ::
  "pylib \<Rightarrow> DurableExecution \<Rightarrow> event_loop \<Rightarrow> string \<Rightarrow> redis \<Rightarrow> unit outcome \<times> redis" where
  "mark_completed lib self loop now r =
     (case loop of
        NoEventLoop \<Rightarrow> asyncio_run loop (writes (mark_completed_async lib self now)) r
      | RunningLoop \<Rightarrow> (TaskCreated, r)
      | IdleLoop \<Rightarrow>
          (case run_until_complete (writes (mark_completed_async lib self now)) r of
             (Raised e, r') \<Rightarrow>
               if is_RuntimeError e
               then asyncio_run loop (writes (mark_completed_async lib self now)) r'
               else (Raised e, r')
           | result \<Rightarrow> result))"

definition mark_failed ::
  "pylib \<Rightarrow> DurableExecution \<Rightarrow> event_loop \<Rightarrow> string \<Rightarrow> string \<Rightarrow> redis \<Rightarrow> unit outcome \<times> redis" where
  "mark_failed lib self loop now err r =
     (case loop of
        NoEventLoop \<Rightarrow> asyncio_run loop (writes (mark_failed_async lib self now err)) r
      | RunningLoop \<Rightarrow> (TaskCreated, r)
      | IdleLoop \<Rightarrow>
          (case run_until_complete (writes (mark_failed_async lib self now err)) r of
             (Raised e, r') \<Rightarrow>
               if is_RuntimeError e
               then asyncio_run loop (writes (mark_failed_async lib self now err)) r'
               else (Raised e, r')
           | result \<Rightarrow> result))"

text \<open>
  \<^verbatim>\<open>load_checkpoint\<close>, \<^verbatim>\<open>get_execution_info\<close> and \<^verbatim>\<open>load_by_id\<close> raise
  \<^verbatim>\<open>RuntimeError\<close> in a running loop, inside the \<^verbatim>\<open>try\<close> block: the handler calls
  \<^verbatim>\<open>asyncio.run\<close>, which raises \<^verbatim>\<open>RuntimeError\<close> in its turn.
\<close>

definition load_checkpoint ::
  "pylib \<Rightarrow> (ExecutionState \<Rightarrow> 'd) \<Rightarrow> DurableExecution \<Rightarrow> event_loop \<Rightarrow> redis \<Rightarrow> 'd option outcome \<times> redis" where
  "load_checkpoint lib deserialize_state self loop r =
     (case loop of
        NoEventLoop \<Rightarrow> asyncio_run loop (reads (load_checkpoint_async lib deserialize_state self)) r
      | RunningLoop \<Rightarrow> asyncio_run loop (reads (load_checkpoint_async lib deserialize_state self)) r
      | IdleLoop \<Rightarrow>
          (case run_until_complete (reads (load_checkpoint_async lib deserialize_state self)) r of
             (Raised e, r') \<Rightarrow>
               if is_RuntimeError e
               then asyncio_run loop (reads (load_checkpoint_async lib deserialize_state self)) r'
               else (Raised e, r')
           | result \<Rightarrow> result))"

definition get_execution_info ::
  "pylib \<Rightarrow> DurableExecution \<Rightarrow> event_loop \<Rightarrow> redis \<Rightarrow> ExecutionState option outcome \<times> redis" where
  "get_execution_info lib self loop r =
     (case loop of
        NoEventLoop \<Rightarrow> asyncio_run loop (reads (get_execution_info_async lib self)) r
      | RunningLoop \<Rightarrow> asyncio_run loop (reads (get_execution_info_async lib self)) r
      | IdleLoop \<Rightarrow>
          (case run_until_complete (reads (get_execution_info_async lib self)) r of
             (Raised e, r') \<Rightarrow>
               if is_RuntimeError e
               then asyncio_run loop (reads (get_execution_info_async lib self)) r'
               else (Raised e, r')
           | result \<Rightarrow> result))"

definition load_by_id ::
  "pylib \<Rightarrow> string \<Rightarrow> event_loop \<Rightarrow> string \<Rightarrow> RedisDurableStorage \<Rightarrow> redis \<Rightarrow> DurableExecution option outcome \<times> redis" where
  "load_by_id lib generated loop eid st r =
     (case loop of
        NoEventLoop \<Rightarrow> asyncio_run loop (reads (load_by_id_async lib generated eid st)) r
      | RunningLoop \<Rightarrow> asyncio_run loop (reads (load_by_id_async lib generated eid st)) r
      | IdleLoop \<Rightarrow>
          (case run_until_complete (reads (load_by_id_async lib generated eid st)) r of
             (Raised e, r') \<Rightarrow>
               if is_RuntimeError e
               then asyncio_run loop (reads (load_by_id_async lib generated eid st)) r'
               else (Raised e, r')
           | result \<Rightarrow> result))"

text \<open>
  Sample data for concrete runs: the storage with the default prefix of \<^verbatim>\<open>__init__\<close>,
  two checkpoints of one execution, the documents a run over them writes, a manager of
  that execution, and a server whose index sets have drifted from the metadata.
\<close>

definition default_storage :: RedisDurableStorage where
  "default_storage = \<lparr>prefix = ''durable_exec:''\<rparr>"

definition checkpoint_fetch :: ExecutionState where
  "checkpoint_fetch =
     [(''step_index'', PyInt 0), (''step_name'', PyStr ''fetch''), (''status'', PyStr ''running'')]"

definition checkpoint_process :: ExecutionState where
  "checkpoint_process =
     [(''step_index'', PyInt 1), (''step_name'', PyStr ''process''), (''status'', PyStr ''running'')]"

definition sample_lib :: pylib where
  "sample_lib =
     table_lib
       [(''doc1'', add_metadata ''t1'' ''job'' checkpoint_fetch),
        (''doc2'', add_metadata ''t2'' ''job'' checkpoint_process),
        (''doc3'', add_metadata ''t3'' ''job''
                     (AList.update ''status'' (PyStr ''completed'') (add_metadata ''t1'' ''job'' checkpoint_fetch))),
        (''doc4'', add_metadata ''t3'' ''job''
                     (AList.update ''error'' (PyStr ''timeout'')
                       (AList.update ''status'' (PyStr ''failed'') (add_metadata ''t1'' ''job'' checkpoint_fetch))))]
       []"

definition manager :: "bool \<Rightarrow> DurableExecution" where
  "manager cleanup = \<lparr>storage = default_storage, execution_id = ''job'', auto_cleanup = cleanup, debug = False\<rparr>"

definition drifted_store :: redis where
  "drifted_store =
     [(''durable_exec:a'', RString ''doc3''),
      (''durable_exec:meta:a'',
         RHash [(''execution_id'', ''a''), (''status'', ''completed''), (''step_index'', ''2''),
                (''step_name'', ''store''), (''timestamp'', ''2024-01-03''), (''saved_at'', ''t3''),
                (''error'', [])]),
      (''durable_exec:index:running'', RSet [''a'', ''gone'']),
      (''durable_exec:meta:b'',
         RHash [(''execution_id'', ''b''), (''status'', ''running''), (''step_index'', ''1''),
                (''step_name'', ''fetch''), (''timestamp'', ''2024-01-02''), (''saved_at'', ''t2''),
                (''error'', [])])]"

text \<open>
  An execution that failed on 1 January 2024 and was resumed the day after, with the
  documents and timestamps of that run; \<open>february_first\<close> is 1 February 2024, 00:00 UTC.
\<close>

definition failed_state :: ExecutionState where
  "failed_state =
     [(''step_index'', PyInt 1), (''step_name'', PyStr ''process''), (''status'', PyStr ''failed''),
      (''error'', PyStr ''timeout''), (''timestamp'', PyStr ''2024-01-01T00:00:00Z'')]"

definition resumed_state :: ExecutionState where
  "resumed_state =
     [(''step_index'', PyInt 1), (''step_name'', PyStr ''process''), (''status'', PyStr ''running''),
      (''timestamp'', PyStr ''2024-01-02T00:00:00Z'')]"

definition resume_lib :: pylib where
  "resume_lib =
     table_lib
       [(''failed.json'', add_metadata ''t1'' ''job'' failed_state),
        (''resumed.json'', add_metadata ''t2'' ''job'' resumed_state)]
       [(''2024-01-01T00:00:00+00:00'', Aware 1704067200000000),
        (''2024-01-02T00:00:00+00:00'', Aware 1704153600000000)]"

definition february_first :: int where
  "february_first = 1706745600000000"

text \<open>A server whose keys for \<^verbatim>\<open>job\<close> hold values of the wrong types.\<close>

definition wrong_types :: redis where
  "wrong_types =
     [(''durable_exec:job'', RSet [''x'']), (''durable_exec:meta:job'', RString ''y'')]"


section \<open>Facts about the server\<close>

lemma redis_command_other_key:
  "command_key c \<noteq> k \<Longrightarrow> map_of (snd (redis_command c r)) k = map_of r k"
  by (cases c) (auto split: option.splits rvalue.splits simp: AList.update_conv' AList.delete_conv')

lemma redis_command_keeps_string:
  "map_of r k = Some (RString v) \<Longrightarrow> \<not> is_overwrite c \<Longrightarrow>
   map_of (snd (redis_command c r)) k = Some (RString v)"
  by (cases c) (auto split: option.splits rvalue.splits simp: AList.update_conv' AList.delete_conv')

lemma redis_command_distinct:
  "distinct (map fst r) \<Longrightarrow> distinct (map fst (snd (redis_command c r)))"
  by (cases c) (auto split: option.splits rvalue.splits simp: AList.distinct_update AList.distinct_delete)

lemma pipe_run_3:
  "snd (pipe_run [a, b, c] r) = snd (redis_command c (snd (redis_command b (snd (redis_command a r)))))"
  by (simp split: prod.splits)

lemma count_key_distinct:
  "distinct (map fst r) \<Longrightarrow> map_of r k = Some v \<Longrightarrow> length (filter (\<lambda>kv. fst kv = k) r) = 1"
proof (induction r)
  case Nil
  then show ?case by simp
next
  case (Cons p r)
  show ?case
  proof (cases "fst p = k")
    case True
    from Cons.prems True have "k \<notin> fst ` set r"
      by auto
    then have "filter (\<lambda>kv. fst kv = k) r = []"
      by (auto simp: filter_empty_conv)
    with True show ?thesis by simp
  next
    case False
    with Cons.prems have "distinct (map fst r)" "map_of r k = Some v"
      by (cases p; simp)+
    with Cons.IH False show ?thesis by simp
  qed
qed

section \<open>Saving and loading\<close>

lemma save_state_async_Inr:
  assumes "save_state_async lib self now i s r = Inr r'"
  shows "\<exists>m. encode_mapping (metadata_of i (add_metadata now i s)) = Inr m
           \<and> r' = snd (pipe_run [SET (make_key self i) (json_dumps lib (add_metadata now i s)),
                         HSET (make_metadata_key self i) m,
                         SADD (make_index_key self
                           (py_str (py_get_default (add_metadata now i s) ''status'' (PyStr ''running'')))) i] r)
           \<and> ReplyError \<notin> set (fst (pipe_run [SET (make_key self i) (json_dumps lib (add_metadata now i s)),
                         HSET (make_metadata_key self i) m,
                         SADD (make_index_key self
                           (py_str (py_get_default (add_metadata now i s) ''status'' (PyStr ''running'')))) i] r))"
  using assms unfolding save_state_async_def pipe_execute_def Let_def
  by (auto simp del: pipe_run.simps split: sum.splits prod.splits if_splits)

lemma save_state_async_run:
  assumes "save_state_async lib self now i s r = Inr r'"
  shows "\<exists>m j. r' = snd (redis_command (SADD j i)
                  (snd (redis_command (HSET (make_metadata_key self i) m)
                     (snd (redis_command (SET (make_key self i) (json_dumps lib (add_metadata now i s))) r)))))"
  using save_state_async_Inr [OF assms] unfolding pipe_run_3 by blast

lemma save_state_async_primary:
  assumes "save_state_async lib self now i s r = Inr r'"
  shows "map_of r' (make_key self i) = Some (RString (json_dumps lib (add_metadata now i s)))"
proof -
  define ra where "ra = snd (redis_command (SET (make_key self i) (json_dumps lib (add_metadata now i s))) r)"
  from save_state_async_run [OF assms] obtain m j where
    r': "r' = snd (redis_command (SADD j i) (snd (redis_command (HSET (make_metadata_key self i) m) ra)))"
    unfolding ra_def by blast
  have a: "map_of ra (make_key self i) = Some (RString (json_dumps lib (add_metadata now i s)))"
    by (simp add: ra_def AList.update_conv')
  have b: "map_of (snd (redis_command (HSET (make_metadata_key self i) m) ra)) (make_key self i)
             = Some (RString (json_dumps lib (add_metadata now i s)))"
    by (rule redis_command_keeps_string [OF a]) simp
  show ?thesis
    unfolding r' by (rule redis_command_keeps_string [OF b]) simp
qed

lemma save_state_async_distinct:
  assumes "save_state_async lib self now i s r = Inr r'" "distinct (map fst r)"
  shows "distinct (map fst r')"
proof -
  from save_state_async_run [OF assms(1)] obtain m j where
    "r' = snd (redis_command (SADD j i)
                  (snd (redis_command (HSET (make_metadata_key self i) m)
                     (snd (redis_command (SET (make_key self i) (json_dumps lib (add_metadata now i s))) r)))))"
    by blast
  then show ?thesis
    using assms(2) by (simp only: redis_command_distinct)
qed

lemma add_metadata_other:
  "k \<noteq> ''saved_at'' \<Longrightarrow> k \<noteq> ''execution_id'' \<Longrightarrow> map_of (add_metadata now i s) k = map_of s k"
  by (simp add: add_metadata_def AList.update_conv')

lemmas save_unfold =
  save_state_async_def add_metadata_def metadata_of_def py_or_def py_get_def py_get_default_def
  pipe_execute_def make_key_def make_metadata_key_def make_index_key_def hset_fields_def Let_def

lemmas run_unfold =
  save_unfold table_lib_def sample_lib_def default_storage_def checkpoint_fetch_def
  checkpoint_process_def string_of_int_def string_of_nat.simps digit_char_def manager_def
  mark_completed_async_def mark_failed_async_def delete_state_async_def load_state_async_def
  redis_get_def state_truthy_def

text \<open>
  C1. The claim: after any sequence of saves, an identifier is in the status index of S
  exactly when its metadata hash reports status S, and a save that changes the status
  takes the identifier out of the old index. \<^verbatim>\<open>save_state_async\<close> only ever adds to an
  index. Saving \<^verbatim>\<open>job\<close> as running and then as completed, into an empty server, leaves
  \<^verbatim>\<open>job\<close> in the index of \<^verbatim>\<open>running\<close> while its metadata hash says \<^verbatim>\<open>completed\<close>.
\<close>

theorem save_keeps_old_index_entry:
  "\<exists>r1 r2. save_state_async lib self now1 ''job'' [(''status'', PyStr ''running'')] [] = Inr r1
         \<and> save_state_async lib self now2 ''job'' [(''status'', PyStr ''completed'')] r1 = Inr r2
         \<and> in_status_index self r2 ''running'' ''job''
         \<and> metadata_status self r2 ''job'' = Some ''completed''"
  by (simp add: save_unfold in_status_index_def metadata_status_def redis_smembers_def redis_hgetall_def)

text \<open>
  C3. Two saves under one identifier, one after the other: a load then returns the state
  of the second save (with the \<^verbatim>\<open>saved_at\<close> and \<^verbatim>\<open>execution_id\<close> that the save stamps
  on it, every other entry as given), the server holds exactly one primary key for the
  identifier, and nothing of the first state is kept. The JSON library is assumed to read
  back the document it wrote for the second state.
\<close>

theorem save_twice_last_write_wins:
  assumes "save_state_async lib self now1 i s1 r = Inr r1"
      and "save_state_async lib self now2 i s2 r1 = Inr r2"
      and "json_loads lib (json_dumps lib (add_metadata now2 i s2)) = Some (JsonObject (add_metadata now2 i s2))"
      and "distinct (map fst r)"
  shows "load_state_async lib self i r2 = Inr (Some (add_metadata now2 i s2))
       \<and> length (filter (\<lambda>kv. fst kv = make_key self i) r2) = 1
       \<and> (\<forall>k. k \<noteq> ''saved_at'' \<and> k \<noteq> ''execution_id'' \<longrightarrow>
              map_of (add_metadata now2 i s2) k = map_of s2 k)"
proof -
  have key: "map_of r2 (make_key self i) = Some (RString (json_dumps lib (add_metadata now2 i s2)))"
    by (rule save_state_async_primary [OF assms(2)])
  have "distinct (map fst r2)"
    using assms(1,2,4) by (blast intro: save_state_async_distinct)
  with key have "length (filter (\<lambda>kv. fst kv = make_key self i) r2) = 1"
    by (rule count_key_distinct [rotated])
  moreover have "load_state_async lib self i r2 = Inr (Some (add_metadata now2 i s2))"
    by (simp add: load_state_async_def redis_get_def key assms(3))
  ultimately show ?thesis
    by (simp add: add_metadata_other)
qed

theorem save_twice_last_write_wins_witness:
  "\<exists>r1 r2.
     save_state_async sample_lib default_storage ''t1'' ''job'' checkpoint_fetch [] = Inr r1
   \<and> save_state_async sample_lib default_storage ''t2'' ''job'' checkpoint_process r1 = Inr r2
   \<and> load_state_async sample_lib default_storage ''job'' r2
       = Inr (Some [(''step_index'', PyInt 1), (''step_name'', PyStr ''process''),
                    (''status'', PyStr ''running''), (''saved_at'', PyStr ''t2''),
                    (''execution_id'', PyStr ''job'')])"
proof -
  note ev = run_unfold
  obtain r1 where r1:
    "save_state_async sample_lib default_storage ''t1'' ''job'' checkpoint_fetch [] = Inr r1"
    by (simp add: ev)
  obtain r2 where r2:
    "save_state_async sample_lib default_storage ''t2'' ''job'' checkpoint_process r1 = Inr r2"
    using r1 by (auto simp add: ev)
  have rt: "json_loads sample_lib (json_dumps sample_lib (add_metadata ''t2'' ''job'' checkpoint_process))
              = Some (JsonObject (add_metadata ''t2'' ''job'' checkpoint_process))"
    by (simp add: table_lib_def sample_lib_def add_metadata_def checkpoint_fetch_def checkpoint_process_def)
  have "load_state_async sample_lib default_storage ''job'' r2
          = Inr (Some (add_metadata ''t2'' ''job'' checkpoint_process))"
    using save_twice_last_write_wins [OF r1 r2 rt] by simp
  then have "load_state_async sample_lib default_storage ''job'' r2
          = Inr (Some [(''step_index'', PyInt 1), (''step_name'', PyStr ''process''),
                    (''status'', PyStr ''running''), (''saved_at'', PyStr ''t2''),
                    (''execution_id'', PyStr ''job'')])"
    by (simp add: add_metadata_def checkpoint_process_def)
  with r1 r2 show ?thesis by blast
qed




lemma redis_command_keeps_absent:
  "map_of r k = None \<Longrightarrow> is_removal c \<Longrightarrow> map_of (snd (redis_command c r)) k = None"
  by (cases c) (auto split: option.splits rvalue.splits simp: AList.update_conv' AList.delete_conv')

lemma pipe_run_Cons_snd:
  "snd (pipe_run (c # cs) r) = snd (pipe_run cs (snd (redis_command c r)))"
  by (simp split: prod.splits)

lemma pipe_run_keeps_absent:
  "map_of r k = None \<Longrightarrow> list_all is_removal cs \<Longrightarrow> map_of (snd (pipe_run cs r)) k = None"
proof (induction cs arbitrary: r)
  case Nil
  then show ?case by simp
next
  case (Cons c cs)
  from Cons.prems have "map_of (snd (redis_command c r)) k = None"
    by (simp add: redis_command_keeps_absent)
  with Cons.IH [of "snd (redis_command c r)"] Cons.prems show ?case
    by (simp del: pipe_run.simps redis_command.simps add: pipe_run_Cons_snd)
qed

lemma redis_command_DEL: "map_of (snd (redis_command (DEL k) r)) k = None"
  by (simp add: AList.delete_conv' split: option.splits)

lemma delete_state_async_absent:
  assumes "delete_state_async lib self i r = Inr (deleted, r')"
  shows "map_of r' (make_key self i) = None"
proof -
  from assms obtain state where st: "load_state_async lib self i r = Inr state"
    by (auto simp: delete_state_async_def split: sum.splits)
  define cs where "cs = DEL (make_metadata_key self i) #
     (if state_truthy state
      then [SREM (make_index_key self (py_str (py_get_default (the state) ''status'' (PyStr ''running'')))) i]
      else [])"
  have cs: "list_all is_removal cs"
    by (simp add: cs_def)
  from assms st have "r' = snd (pipe_run (DEL (make_key self i) # cs) r)"
    unfolding delete_state_async_def pipe_execute_def Let_def cs_def
    by (auto simp del: pipe_run.simps split: sum.splits prod.splits if_splits)
  then have "r' = snd (pipe_run cs (snd (redis_command (DEL (make_key self i)) r)))"
    by (simp only: pipe_run_Cons_snd)
  then show ?thesis
    using cs by (simp add: pipe_run_keeps_absent redis_command_DEL del: redis_command.simps)
qed

section \<open>Marking an execution\<close>

text \<open>
  C6. With auto-cleanup, \<^verbatim>\<open>mark_completed_async\<close> deletes the record: a load afterwards
  returns \<^verbatim>\<open>None\<close>. Without it, and with a record \<open>s\<close> in the store, it saves \<open>s\<close>
  again with \<^verbatim>\<open>status\<close> set to \<^verbatim>\<open>completed\<close>: a load afterwards returns that state,
  whose status is \<^verbatim>\<open>completed\<close> and whose other entries are those of \<open>s\<close> (the save
  stamps \<^verbatim>\<open>saved_at\<close> and \<^verbatim>\<open>execution_id\<close>). The JSON library is assumed to read back
  the document it wrote.
\<close>

theorem mark_completed_async_load:
  "(auto_cleanup self \<and> mark_completed_async lib self now r = Inr r' \<longrightarrow>
      load_state_async lib (storage self) (execution_id self) r' = Inr None)
 \<and> (\<not> auto_cleanup self
      \<and> load_state_async lib (storage self) (execution_id self) r = Inr (Some s) \<and> s \<noteq> []
      \<and> mark_completed_async lib self now r = Inr r'
      \<and> json_loads lib (json_dumps lib
            (add_metadata now (execution_id self) (AList.update ''status'' (PyStr ''completed'') s)))
          = Some (JsonObject
               (add_metadata now (execution_id self) (AList.update ''status'' (PyStr ''completed'') s))) \<longrightarrow>
      load_state_async lib (storage self) (execution_id self) r'
        = Inr (Some (add_metadata now (execution_id self) (AList.update ''status'' (PyStr ''completed'') s)))
      \<and> py_get (add_metadata now (execution_id self) (AList.update ''status'' (PyStr ''completed'') s)) ''status''
          = PyStr ''completed''
      \<and> (\<forall>k. k \<noteq> ''status'' \<and> k \<noteq> ''saved_at'' \<and> k \<noteq> ''execution_id'' \<longrightarrow>
            map_of (add_metadata now (execution_id self) (AList.update ''status'' (PyStr ''completed'') s)) k
              = map_of s k))"
proof (intro conjI impI)
  assume "auto_cleanup self \<and> mark_completed_async lib self now r = Inr r'"
  then have ac: "auto_cleanup self" and mk: "mark_completed_async lib self now r = Inr r'"
    by blast+
  have "map_of r' (make_key (storage self) (execution_id self)) = None"
  proof (cases "delete_state_async lib (storage self) (execution_id self) r")
    case (Inl e)
    with mk ac show ?thesis
      by (simp add: mark_completed_async_def)
  next
    case (Inr p)
    obtain deleted r'' where p: "p = (deleted, r'')"
      by (cases p)
    with Inr mk ac have "r'' = r'"
      by (simp add: mark_completed_async_def)
    with Inr p have "delete_state_async lib (storage self) (execution_id self) r = Inr (deleted, r')"
      by simp
    then show ?thesis
      by (rule delete_state_async_absent)
  qed
  then show "load_state_async lib (storage self) (execution_id self) r' = Inr None"
    by (simp add: load_state_async_def redis_get_def)
next
  let ?s' = "add_metadata now (execution_id self) (AList.update ''status'' (PyStr ''completed'') s)"
  assume a: "\<not> auto_cleanup self
      \<and> load_state_async lib (storage self) (execution_id self) r = Inr (Some s) \<and> s \<noteq> []
      \<and> mark_completed_async lib self now r = Inr r'
      \<and> json_loads lib (json_dumps lib ?s') = Some (JsonObject ?s')"
  then have nc: "\<not> auto_cleanup self"
    and ld: "load_state_async lib (storage self) (execution_id self) r = Inr (Some s)"
    and ne: "s \<noteq> []"
    and mk: "mark_completed_async lib self now r = Inr r'"
    by blast+
  from mk have "save_state_async lib (storage self) now (execution_id self)
               (AList.update ''status'' (PyStr ''completed'') s) r = Inr r'"
    unfolding mark_completed_async_def by (simp add: nc ld ne state_truthy_def)
  then have "map_of r' (make_key (storage self) (execution_id self)) = Some (RString (json_dumps lib ?s'))"
    by (rule save_state_async_primary)
  moreover from a have "json_loads lib (json_dumps lib ?s') = Some (JsonObject ?s')"
    by blast
  ultimately show "load_state_async lib (storage self) (execution_id self) r' = Inr (Some ?s')"
    by (simp add: load_state_async_def redis_get_def)
  show "py_get ?s' ''status'' = PyStr ''completed''"
    by (simp add: py_get_def add_metadata_def AList.update_conv')
  show "\<forall>k. k \<noteq> ''status'' \<and> k \<noteq> ''saved_at'' \<and> k \<noteq> ''execution_id'' \<longrightarrow> map_of ?s' k = map_of s k"
    by (simp add: add_metadata_def AList.update_conv')
qed

theorem mark_completed_async_load_witness:
  "\<exists>r r1 r2.
      save_state_async sample_lib default_storage ''t1'' ''job'' checkpoint_fetch [] = Inr r
    \<and> mark_completed_async sample_lib (manager True) ''t3'' r = Inr r1
    \<and> load_state_async sample_lib default_storage ''job'' r1 = Inr None
    \<and> mark_completed_async sample_lib (manager False) ''t3'' r = Inr r2
    \<and> load_state_async sample_lib default_storage ''job'' r2
         = Inr (Some [(''step_index'', PyInt 0), (''step_name'', PyStr ''fetch''),
                      (''status'', PyStr ''completed''), (''saved_at'', PyStr ''t3''),
                      (''execution_id'', PyStr ''job'')])"
proof -
  let ?s = "add_metadata ''t1'' ''job'' checkpoint_fetch"
  let ?s' = "add_metadata ''t3'' ''job'' (AList.update ''status'' (PyStr ''completed'') ?s)"
  obtain r where r: "save_state_async sample_lib default_storage ''t1'' ''job'' checkpoint_fetch [] = Inr r"
    by (simp add: run_unfold)
  obtain r1 where r1: "mark_completed_async sample_lib (manager True) ''t3'' r = Inr r1"
    using r by (auto simp add: run_unfold)
  obtain r2 where r2: "mark_completed_async sample_lib (manager False) ''t3'' r = Inr r2"
    using r by (auto simp add: run_unfold)
  have ld: "load_state_async sample_lib default_storage ''job'' r = Inr (Some ?s)"
    using r by (auto simp add: run_unfold)
  have ne: "?s \<noteq> []"
    by (simp add: add_metadata_def)
  have rt: "json_loads sample_lib (json_dumps sample_lib ?s') = Some (JsonObject ?s')"
    by (simp add: sample_lib_def table_lib_def add_metadata_def checkpoint_fetch_def checkpoint_process_def)
  have 1: "load_state_async sample_lib default_storage ''job'' r1 = Inr None"
    using mark_completed_async_load [of "manager True" sample_lib "''t3''" r r1] r1
    by (simp add: manager_def)
  have "load_state_async sample_lib default_storage ''job'' r2 = Inr (Some ?s')"
    using mark_completed_async_load [of "manager False" sample_lib "''t3''" r r2 ?s] r2 ld ne rt
    by (simp add: manager_def)
  then have 2: "load_state_async sample_lib default_storage ''job'' r2
         = Inr (Some [(''step_index'', PyInt 0), (''step_name'', PyStr ''fetch''),
                      (''status'', PyStr ''completed''), (''saved_at'', PyStr ''t3''),
                      (''execution_id'', PyStr ''job'')])"
    by (simp add: add_metadata_def checkpoint_fetch_def)
  from r r1 r2 1 2 show ?thesis by blast
qed

text \<open>
  C7. \<^verbatim>\<open>mark_failed_async\<close> leaves the store as it is when a load finds no record.
  With a record \<open>s\<close> it saves \<open>s\<close> again with \<^verbatim>\<open>status\<close> set to \<^verbatim>\<open>failed\<close> and
  \<^verbatim>\<open>error\<close> set to the given string: a load afterwards returns that state.
\<close>

theorem mark_failed_async_effect:
  "(load_state_async lib (storage self) (execution_id self) r = Inr None \<longrightarrow>
      mark_failed_async lib self now err r = Inr r)
 \<and> (load_state_async lib (storage self) (execution_id self) r = Inr (Some s) \<and> s \<noteq> []
      \<and> mark_failed_async lib self now err r = Inr r'
      \<and> json_loads lib (json_dumps lib (add_metadata now (execution_id self)
            (AList.update ''error'' (PyStr err) (AList.update ''status'' (PyStr ''failed'') s))))
          = Some (JsonObject (add_metadata now (execution_id self)
              (AList.update ''error'' (PyStr err) (AList.update ''status'' (PyStr ''failed'') s)))) \<longrightarrow>
      load_state_async lib (storage self) (execution_id self) r'
        = Inr (Some (add_metadata now (execution_id self)
            (AList.update ''error'' (PyStr err) (AList.update ''status'' (PyStr ''failed'') s))))
      \<and> py_get (add_metadata now (execution_id self)
            (AList.update ''error'' (PyStr err) (AList.update ''status'' (PyStr ''failed'') s))) ''status''
          = PyStr ''failed''
      \<and> py_get (add_metadata now (execution_id self)
            (AList.update ''error'' (PyStr err) (AList.update ''status'' (PyStr ''failed'') s))) ''error''
          = PyStr err
      \<and> (\<forall>k. k \<noteq> ''status'' \<and> k \<noteq> ''error'' \<and> k \<noteq> ''saved_at'' \<and> k \<noteq> ''execution_id'' \<longrightarrow>
            map_of (add_metadata now (execution_id self)
              (AList.update ''error'' (PyStr err) (AList.update ''status'' (PyStr ''failed'') s))) k
              = map_of s k))"
proof (intro conjI impI)
  assume "load_state_async lib (storage self) (execution_id self) r = Inr None"
  then show "mark_failed_async lib self now err r = Inr r"
    by (simp add: mark_failed_async_def state_truthy_def)
next
  let ?s' = "add_metadata now (execution_id self)
            (AList.update ''error'' (PyStr err) (AList.update ''status'' (PyStr ''failed'') s))"
  assume a: "load_state_async lib (storage self) (execution_id self) r = Inr (Some s) \<and> s \<noteq> []
      \<and> mark_failed_async lib self now err r = Inr r'
      \<and> json_loads lib (json_dumps lib ?s') = Some (JsonObject ?s')"
  then have ld: "load_state_async lib (storage self) (execution_id self) r = Inr (Some s)"
    and ne: "s \<noteq> []"
    and mk: "mark_failed_async lib self now err r = Inr r'"
    by blast+
  from mk have "save_state_async lib (storage self) now (execution_id self)
               (AList.update ''error'' (PyStr err) (AList.update ''status'' (PyStr ''failed'') s)) r = Inr r'"
    unfolding mark_failed_async_def by (simp add: ld ne state_truthy_def)
  then have "map_of r' (make_key (storage self) (execution_id self)) = Some (RString (json_dumps lib ?s'))"
    by (rule save_state_async_primary)
  moreover from a have "json_loads lib (json_dumps lib ?s') = Some (JsonObject ?s')"
    by blast
  ultimately show "load_state_async lib (storage self) (execution_id self) r' = Inr (Some ?s')"
    by (simp add: load_state_async_def redis_get_def)
  show "py_get ?s' ''status'' = PyStr ''failed''"
    by (simp add: py_get_def add_metadata_def AList.update_conv')
  show "py_get ?s' ''error'' = PyStr err"
    by (simp add: py_get_def add_metadata_def AList.update_conv')
  show "\<forall>k. k \<noteq> ''status'' \<and> k \<noteq> ''error'' \<and> k \<noteq> ''saved_at'' \<and> k \<noteq> ''execution_id'' \<longrightarrow> map_of ?s' k = map_of s k"
    by (simp add: add_metadata_def AList.update_conv')
qed

theorem mark_failed_async_effect_witness:
  "mark_failed_async sample_lib (manager False) ''t3'' ''timeout'' [] = Inr []
 \<and> (\<exists>r r'.
      save_state_async sample_lib default_storage ''t1'' ''job'' checkpoint_fetch [] = Inr r
    \<and> mark_failed_async sample_lib (manager False) ''t3'' ''timeout'' r = Inr r'
    \<and> load_state_async sample_lib default_storage ''job'' r'
         = Inr (Some [(''step_index'', PyInt 0), (''step_name'', PyStr ''fetch''),
                      (''status'', PyStr ''failed''), (''saved_at'', PyStr ''t3''),
                      (''execution_id'', PyStr ''job''), (''error'', PyStr ''timeout'')]))"
proof -
  let ?s = "add_metadata ''t1'' ''job'' checkpoint_fetch"
  let ?s' = "add_metadata ''t3'' ''job''
               (AList.update ''error'' (PyStr ''timeout'') (AList.update ''status'' (PyStr ''failed'') ?s))"
  have "load_state_async sample_lib (storage (manager False)) (execution_id (manager False)) [] = Inr None"
    by (simp add: load_state_async_def redis_get_def)
  with mark_failed_async_effect [of sample_lib "manager False" "[]" "''t3''" "''timeout''"]
  have 0: "mark_failed_async sample_lib (manager False) ''t3'' ''timeout'' [] = Inr []"
    by blast
  obtain r where r: "save_state_async sample_lib default_storage ''t1'' ''job'' checkpoint_fetch [] = Inr r"
    by (simp add: run_unfold)
  obtain r' where r': "mark_failed_async sample_lib (manager False) ''t3'' ''timeout'' r = Inr r'"
    using r by (auto simp add: run_unfold)
  have ld: "load_state_async sample_lib default_storage ''job'' r = Inr (Some ?s)"
    using r by (auto simp add: run_unfold)
  have ne: "?s \<noteq> []"
    by (simp add: add_metadata_def)
  have rt: "json_loads sample_lib (json_dumps sample_lib ?s') = Some (JsonObject ?s')"
    by (simp add: sample_lib_def table_lib_def add_metadata_def checkpoint_fetch_def checkpoint_process_def)
  have "load_state_async sample_lib default_storage ''job'' r' = Inr (Some ?s')"
    using mark_failed_async_effect [of sample_lib "manager False" r "''t3''" "''timeout''" ?s r'] r' ld ne rt
    by (simp add: manager_def)
  then have "load_state_async sample_lib default_storage ''job'' r'
         = Inr (Some [(''step_index'', PyInt 0), (''step_name'', PyStr ''fetch''),
                      (''status'', PyStr ''failed''), (''saved_at'', PyStr ''t3''),
                      (''execution_id'', PyStr ''job''), (''error'', PyStr ''timeout'')])"
    by (simp add: add_metadata_def checkpoint_fetch_def)
  with 0 r r' show ?thesis by blast
qed

section \<open>Listing\<close>

lemma fetch_metadata_sound:
  "fetch_metadata self r ids = Inr result \<Longrightarrow> x \<in> set result \<Longrightarrow>
   \<exists>i \<in> set ids. \<exists>m. m \<noteq> [] \<and> redis_hgetall (make_metadata_key self i) r = Inr m \<and> entry_of i m = Inr x"
proof (induction ids arbitrary: result)
  case Nil
  then show ?case by simp
next
  case (Cons i ids)
  from Cons.prems(1) obtain m where m: "redis_hgetall (make_metadata_key self i) r = Inr m"
    by (cases "redis_hgetall (make_metadata_key self i) r") simp_all
  show ?case
  proof (cases "m = []")
    case True
    with Cons.prems m have "fetch_metadata self r ids = Inr result"
      by simp
    from Cons.IH [OF this Cons.prems(2)] show ?thesis
      by auto
  next
    case False
    with Cons.prems(1) m obtain e rest where e: "entry_of i m = Inr e"
      and rest: "fetch_metadata self r ids = Inr rest" and result: "result = e # rest"
      by (auto split: sum.splits)
    show ?thesis
    proof (cases "x = e")
      case True
      with m e False show ?thesis by auto
    next
      case neq: False
      with Cons.prems(2) result have "x \<in> set rest" by simp
      from Cons.IH [OF rest this] show ?thesis by auto
    qed
  qed
qed

lemma fetch_metadata_complete:
  "fetch_metadata self r ids = Inr result \<Longrightarrow> i \<in> set ids \<Longrightarrow>
   redis_hgetall (make_metadata_key self i) r = Inr m \<Longrightarrow> m \<noteq> [] \<Longrightarrow>
   \<exists>x \<in> set result. entry_of i m = Inr x"
proof (induction ids arbitrary: result)
  case Nil
  then show ?case by simp
next
  case (Cons j ids)
  from Cons.prems(1) obtain mj where mj: "redis_hgetall (make_metadata_key self j) r = Inr mj"
    by (cases "redis_hgetall (make_metadata_key self j) r") simp_all
  show ?case
  proof (cases "mj = []")
    case True
    with Cons.prems mj have rest: "fetch_metadata self r ids = Inr result" and "i \<noteq> j"
      by auto
    with Cons.prems(2) have "i \<in> set ids" by simp
    from Cons.IH [OF rest this Cons.prems(3,4)] show ?thesis .
  next
    case False
    with Cons.prems(1) mj obtain e rest where e: "entry_of j mj = Inr e"
      and rest: "fetch_metadata self r ids = Inr rest" and result: "result = e # rest"
      by (auto split: sum.splits)
    show ?thesis
    proof (cases "i = j")
      case True
      with mj e Cons.prems(3) result show ?thesis by auto
    next
      case neq: False
      with Cons.prems(2) have "i \<in> set ids" by simp
      from Cons.IH [OF rest this Cons.prems(3,4)] result show ?thesis by auto
    qed
  qed
qed

lemma sort_by_timestamp_desc_sorted:
  assumes "sort_by_timestamp_desc result = Inr s"
  shows "by_timestamp_desc s" and "set s = set result"
proof -
  from assms have s: "s = rev (sort_key timestamp_key (rev result))"
    by (auto simp: sort_by_timestamp_desc_def split: if_splits)
  have "sorted (map timestamp_key (sort_key timestamp_key (rev result)))"
    by (rule sorted_sort_key)
  then have "sorted_wrt (\<lambda>x y. timestamp_key x \<le> timestamp_key y) (sort_key timestamp_key (rev result))"
    by (simp add: sorted_map)
  then show "by_timestamp_desc s"
    by (simp add: s by_timestamp_desc_def sorted_wrt_rev)
  show "set s = set result"
    by (simp add: s)
qed

lemma py_slice_to_desc: "by_timestamp_desc xs \<Longrightarrow> by_timestamp_desc (py_slice_to n xs)"
  by (simp add: by_timestamp_desc_def py_slice_to_def sorted_wrt_take)

lemma set_py_slice_to: "set (py_slice_to n xs) \<subseteq> set xs"
  by (auto simp: py_slice_to_def dest: in_set_takeD)

text \<open>
  What a listing that returns is: the entries of the identifiers the listing visits whose
  metadata hash is not empty, each built by \<open>entry_of\<close> whichever way the identifiers
  were found, in descending order of timestamp, cut to the limit after sorting. With a
  status, the identifiers are the members of that status's index set.
\<close>

lemma list_executions_async_result:
  assumes "list_executions_async self status limit r = Inr result"
  shows "\<exists>ids full.
           listed_ids self status r = Inr ids
         \<and> list_executions_async self status None r = Inr full
         \<and> by_timestamp_desc full
         \<and> result = (if limit \<noteq> None \<and> limit \<noteq> Some 0 then py_slice_to (the limit) full else full)
         \<and> by_timestamp_desc result
         \<and> (\<forall>x \<in> set full. \<exists>i \<in> set ids. \<exists>m. m \<noteq> []
                \<and> redis_hgetall (make_metadata_key self i) r = Inr m \<and> entry_of i m = Inr x)
         \<and> (\<forall>i \<in> set ids. \<forall>m. m \<noteq> [] \<and> redis_hgetall (make_metadata_key self i) r = Inr m
                \<longrightarrow> (\<exists>x \<in> set full. entry_of i m = Inr x))
         \<and> set result \<subseteq> set full
         \<and> (status \<noteq> None \<and> status \<noteq> Some [] \<longrightarrow>
                redis_smembers (make_index_key self (the status)) r = Inr ids)"
proof -
  from assms obtain ids where ids: "listed_ids self status r = Inr ids"
    by (cases "listed_ids self status r") (simp_all add: list_executions_async_def)
  from assms ids obtain fetched where fetched: "fetch_metadata self r ids = Inr fetched"
    by (cases "fetch_metadata self r ids") (simp_all add: list_executions_async_def)
  from assms ids fetched obtain full where full: "sort_by_timestamp_desc fetched = Inr full"
    by (cases "sort_by_timestamp_desc fetched") (simp_all add: list_executions_async_def)
  have unlimited: "list_executions_async self status None r = Inr full"
    by (simp add: list_executions_async_def ids fetched full)
  have result: "result = (if limit \<noteq> None \<and> limit \<noteq> Some 0 then py_slice_to (the limit) full else full)"
    using assms by (auto simp: list_executions_async_def ids fetched full split: if_splits)
  have desc: "by_timestamp_desc full" and set_full: "set full = set fetched"
    using sort_by_timestamp_desc_sorted [OF full] by simp_all
  have desc_result: "by_timestamp_desc result"
    unfolding result using desc by (simp add: py_slice_to_desc)
  have sub: "set result \<subseteq> set full"
    unfolding result by (simp add: set_py_slice_to)
  have sound: "\<forall>x \<in> set full. \<exists>i \<in> set ids. \<exists>m. m \<noteq> []
                \<and> redis_hgetall (make_metadata_key self i) r = Inr m \<and> entry_of i m = Inr x"
    unfolding set_full using fetch_metadata_sound [OF fetched] by blast
  have complete: "\<forall>i \<in> set ids. \<forall>m. m \<noteq> [] \<and> redis_hgetall (make_metadata_key self i) r = Inr m
                \<longrightarrow> (\<exists>x \<in> set full. entry_of i m = Inr x)"
    unfolding set_full using fetch_metadata_complete [OF fetched] by blast
  have index: "status \<noteq> None \<and> status \<noteq> Some [] \<longrightarrow>
                redis_smembers (make_index_key self (the status)) r = Inr ids"
    using ids by (auto simp: listed_ids_def split: if_splits)
  from ids unlimited desc result desc_result sound complete sub index show ?thesis
    by blast
qed

lemmas list_unfold =
  list_executions_async_def listed_ids_def redis_scan_iter_def redis_smembers_def redis_hgetall_def
  make_metadata_key_def make_index_key_def entry_of_def py_int_def py_strip_def is_space_def
  is_digit_def nat_of_digits_def sort_by_timestamp_desc_def timestamp_key_def py_slice_to_def Let_def

text \<open>
  C9. The claim: a listing for a status returns the metadata of the executions in that
  status, sorted by timestamp, cut to the limit. The listing takes the identifiers from
  the status's index set and does not look at the status in the metadata, and
  \<^verbatim>\<open>save_state_async\<close> leaves an identifier in the index of its former status. After
  \<^verbatim>\<open>job\<close> is saved as running and then as completed, the listing for \<^verbatim>\<open>running\<close>
  returns the entry of \<^verbatim>\<open>job\<close>, whose status is \<^verbatim>\<open>completed\<close>.
\<close>

theorem list_by_status_returns_other_status:
  "\<exists>r1 r2 x.
      save_state_async lib self now1 ''job'' [(''status'', PyStr ''running'')] [] = Inr r1
    \<and> save_state_async lib self now2 ''job'' [(''status'', PyStr ''completed'')] r1 = Inr r2
    \<and> list_executions_async self (Some ''running'') None r2 = Inr [x]
    \<and> entry_execution_id x = ''job''
    \<and> entry_status x = Some ''completed''"
  by (simp add: save_unfold list_unfold string_of_int_def string_of_nat.simps digit_char_def)

lemma fetch_metadata_length:
  "fetch_metadata self r ids = Inr result \<Longrightarrow>
   length result = length (filter (\<lambda>i. redis_hgetall (make_metadata_key self i) r \<noteq> Inr []) ids)"
proof (induction ids arbitrary: result)
  case Nil
  then show ?case by simp
next
  case (Cons i ids)
  from Cons.prems obtain m where m: "redis_hgetall (make_metadata_key self i) r = Inr m"
    by (cases "redis_hgetall (make_metadata_key self i) r") simp_all
  show ?case
  proof (cases "m = []")
    case True
    with Cons.prems m have "fetch_metadata self r ids = Inr result"
      by simp
    from Cons.IH [OF this] m True show ?thesis
      by simp
  next
    case False
    with Cons.prems m obtain e rest where rest: "fetch_metadata self r ids = Inr rest"
      and result: "result = e # rest"
      by (auto split: sum.splits)
    from Cons.IH [OF rest] m False result show ?thesis
      by simp
  qed
qed

text \<open>
  C10. A listing with limit 0 that returns is the full listing: it has one entry for each
  identifier visited whose metadata hash is not empty, the entry of every such
  identifier is in it, it is in descending order of timestamp, and it is the listing
  that the call without a limit returns. Nothing is truncated, since \<^verbatim>\<open>if limit:\<close> is
  false of 0 as it is of \<^verbatim>\<open>None\<close>.
\<close>

theorem list_executions_async_limit_zero:
  assumes "list_executions_async self status (Some 0) r = Inr result"
  shows "\<exists>ids. listed_ids self status r = Inr ids
          \<and> length result
              = length (filter (\<lambda>i. redis_hgetall (make_metadata_key self i) r \<noteq> Inr []) ids)
          \<and> (\<forall>i \<in> set ids. \<forall>m. m \<noteq> [] \<and> redis_hgetall (make_metadata_key self i) r = Inr m
                \<longrightarrow> (\<exists>x \<in> set result. entry_of i m = Inr x))
          \<and> by_timestamp_desc result
          \<and> list_executions_async self status None r = Inr result"
proof -
  from assms obtain ids where ids: "listed_ids self status r = Inr ids"
    by (cases "listed_ids self status r") (simp_all add: list_executions_async_def)
  from assms ids obtain fetched where fetched: "fetch_metadata self r ids = Inr fetched"
    by (cases "fetch_metadata self r ids") (simp_all add: list_executions_async_def)
  from assms ids fetched have sorted: "sort_by_timestamp_desc fetched = Inr result"
    by (cases "sort_by_timestamp_desc fetched") (simp_all add: list_executions_async_def)
  have unlimited: "list_executions_async self status None r = Inr result"
    by (simp add: list_executions_async_def ids fetched sorted)
  have desc: "by_timestamp_desc result" and same: "set result = set fetched"
    using sort_by_timestamp_desc_sorted [OF sorted] by simp_all
  from sorted have "length result = length fetched"
    by (auto simp: sort_by_timestamp_desc_def split: if_splits)
  with fetch_metadata_length [OF fetched]
  have len: "length result
              = length (filter (\<lambda>i. redis_hgetall (make_metadata_key self i) r \<noteq> Inr []) ids)"
    by simp
  have complete: "\<forall>i \<in> set ids. \<forall>m. m \<noteq> [] \<and> redis_hgetall (make_metadata_key self i) r = Inr m
                \<longrightarrow> (\<exists>x \<in> set result. entry_of i m = Inr x)"
    unfolding same using fetch_metadata_complete [OF fetched] by blast
  from ids len complete desc unlimited show ?thesis
    by blast
qed

theorem list_executions_async_limit_zero_witness:
  "\<exists>result. list_executions_async default_storage None (Some 0) drifted_store = Inr result
      \<and> map entry_execution_id result = [''a'', ''b'']
      \<and> length result = 2
      \<and> list_executions_async default_storage None None drifted_store = Inr result
      \<and> map (map entry_execution_id) [case list_executions_async default_storage None (Some 1) drifted_store of
                                          Inr limited \<Rightarrow> limited | Inl e \<Rightarrow> []]
          = [[''a'']]"
proof -
  note ev = list_unfold default_storage_def drifted_store_def
  obtain result where result: "list_executions_async default_storage None (Some 0) drifted_store = Inr result"
    by (simp add: ev)
  have ids: "listed_ids default_storage None drifted_store = Inr [''a'', ''b'']"
    by (simp add: listed_ids_def redis_scan_iter_def default_storage_def drifted_store_def)
  from list_executions_async_limit_zero [OF result] ids
  have len: "length result
               = length (filter (\<lambda>i. redis_hgetall (make_metadata_key default_storage i) drifted_store \<noteq> Inr [])
                           [''a'', ''b''])"
    and none: "list_executions_async default_storage None None drifted_store = Inr result"
    by auto
  from len have 2: "length result = 2"
    by (simp add: redis_hgetall_def make_metadata_key_def default_storage_def drifted_store_def)
  have names: "map entry_execution_id result = [''a'', ''b'']"
    using result by (auto simp: ev)
  have one: "map (map entry_execution_id) [case list_executions_async default_storage None (Some 1) drifted_store of
                                          Inr limited \<Rightarrow> limited | Inl e \<Rightarrow> []]
          = [[''a'']]"
    by (simp add: ev)
  show ?thesis
    by (rule exI [of _ result]) (use result names 2 none one in simp)
qed

section \<open>Rebuilding the indexes\<close>

lemma in_status_index_members: "in_status_index self r S i \<longleftrightarrow> i \<in> index_members self r S"
  by (simp add: in_status_index_def index_members_def redis_smembers_def split: option.splits rvalue.splits)

lemma make_index_key_inj [simp]: "make_index_key self s = make_index_key self t \<longleftrightarrow> s = t"
  by (simp add: make_index_key_def)

lemma index_key_not_meta [simp]:
  "make_index_key self s \<noteq> make_metadata_key self j"
  "make_metadata_key self j \<noteq> make_index_key self s"
  by (simp_all add: make_index_key_def make_metadata_key_def)

lemma redis_sadd_members:
  "redis_sadd k x r = Inr r' \<Longrightarrow>
   index_members self r' S = (if k = make_index_key self S then insert x (index_members self r S)
                              else index_members self r S)"
  by (auto simp: redis_sadd_def index_members_def AList.update_conv'
           split: option.splits rvalue.splits if_splits)

lemma redis_sadd_other:
  "redis_sadd k x r = Inr r' \<Longrightarrow> k' \<noteq> k \<Longrightarrow> map_of r' k' = map_of r k'"
  by (auto simp: redis_sadd_def AList.update_conv' split: option.splits rvalue.splits if_splits)

lemma redis_delete_map_of: "map_of (redis_delete k r) = (map_of r)(k := None)"
  by (auto simp: redis_delete_def AList.delete_conv' fun_eq_iff split: option.splits)

lemma clear_all_indexes_map_of:
  "map_of (clear_all_indexes self r) k =
     (if k \<in> make_index_key self ` set statuses then None else map_of r k)"
  by (simp add: clear_all_indexes_def statuses_def redis_delete_map_of)

lemma is_metadata_keyD: "is_metadata_key self k \<Longrightarrow> \<exists>j. k = make_metadata_key self j"
  unfolding is_metadata_key_def make_metadata_key_def
  by (metis append_take_drop_id append.assoc)

lemma rebuild_from_metadata:
  "rebuild_from self ks r = Inr r' \<Longrightarrow> is_metadata_key self k \<Longrightarrow> map_of r' k = map_of r k"
proof (induction ks arbitrary: r)
  case Nil
  then show ?case by simp
next
  case (Cons key ks)
  from Cons.prems(2) obtain j where j: "k = make_metadata_key self j"
    by (auto dest: is_metadata_keyD)
  from Cons.prems(1) obtain m where m: "redis_hgetall key r = Inr m"
    by (cases "redis_hgetall key r") simp_all
  show ?case
  proof (cases "\<exists>s e. map_of m ''status'' = Some s \<and> map_of m ''execution_id'' = Some e \<and> s \<noteq> [] \<and> e \<noteq> []")
    case True
    then obtain s e where se: "map_of m ''status'' = Some s" "map_of m ''execution_id'' = Some e"
      "s \<noteq> []" "e \<noteq> []" by blast
    with Cons.prems(1) m obtain r1 where r1: "redis_sadd (make_index_key self s) e r = Inr r1"
      and rest: "rebuild_from self ks r1 = Inr r'"
      by (cases "redis_sadd (make_index_key self s) e r") simp_all
    have "map_of r1 k = map_of r k"
      using redis_sadd_other [OF r1, of k] by (simp add: j)
    with Cons.IH [OF rest Cons.prems(2)] show ?thesis by simp
  next
    case False
    with Cons.prems(1) m have "rebuild_from self ks r = Inr r'"
      by (auto split: option.splits if_splits)
    from Cons.IH [OF this Cons.prems(2)] show ?thesis .
  qed
qed

lemma rebuild_from_members:
  "rebuild_from self ks r = Inr r' \<Longrightarrow> list_all (is_metadata_key self) ks \<Longrightarrow>
   index_members self r' S =
     index_members self r S \<union>
     {e. S \<noteq> [] \<and> e \<noteq> [] \<and> (\<exists>k \<in> set ks. \<exists>h. map_of r k = Some (RHash h)
            \<and> map_of h ''status'' = Some S \<and> map_of h ''execution_id'' = Some e)}"
proof (induction ks arbitrary: r)
  case Nil
  then show ?case by simp
next
  case (Cons key ks)
  from Cons.prems(2) have key: "is_metadata_key self key" and ks: "list_all (is_metadata_key self) ks"
    by simp_all
  from Cons.prems(1) obtain m where m: "redis_hgetall key r = Inr m"
    by (cases "redis_hgetall key r") simp_all
  then have hash: "\<And>h. map_of r key = Some (RHash h) \<Longrightarrow> h = m"
    by (simp add: redis_hgetall_def)
  have nohash: "(\<nexists>h. map_of r key = Some (RHash h)) \<Longrightarrow> m = []"
    using m by (auto simp: redis_hgetall_def split: option.splits rvalue.splits)
  show ?case
  proof (cases "\<exists>s e. map_of m ''status'' = Some s \<and> map_of m ''execution_id'' = Some e \<and> s \<noteq> [] \<and> e \<noteq> []")
    case True
    then obtain s e where se: "map_of m ''status'' = Some s" "map_of m ''execution_id'' = Some e"
      "s \<noteq> []" "e \<noteq> []" by blast
    with Cons.prems(1) m obtain r1 where r1: "redis_sadd (make_index_key self s) e r = Inr r1"
      and rest: "rebuild_from self ks r1 = Inr r'"
      by (cases "redis_sadd (make_index_key self s) e r") simp_all
    have same: "\<And>k. k \<in> set ks \<Longrightarrow> map_of r1 k = map_of r k"
    proof -
      fix k assume "k \<in> set ks"
      with ks have "is_metadata_key self k" by (simp add: list_all_iff)
      then obtain j where "k = make_metadata_key self j" by (auto dest: is_metadata_keyD)
      then show "map_of r1 k = map_of r k"
        using redis_sadd_other [OF r1, of k] by simp
    qed
    have m_hash: "map_of r key = Some (RHash m)"
      using nohash se by (cases "\<exists>h. map_of r key = Some (RHash h)") (auto dest: hash)
    have step: "index_members self r1 S = (if s = S then insert e (index_members self r S) else index_members self r S)"
      using redis_sadd_members [OF r1, of self S] by simp
    from Cons.IH [OF rest ks] have
      "index_members self r' S = index_members self r1 S \<union>
         {e. S \<noteq> [] \<and> e \<noteq> [] \<and> (\<exists>k \<in> set ks. \<exists>h. map_of r k = Some (RHash h)
            \<and> map_of h ''status'' = Some S \<and> map_of h ''execution_id'' = Some e)}"
      using same by simp
    with step m_hash se show ?thesis
      by auto
  next
    case False
    with Cons.prems(1) m have rest: "rebuild_from self ks r = Inr r'"
      by (auto split: option.splits if_splits)
    have nohit: "\<not> (\<exists>h e. map_of r key = Some (RHash h) \<and> map_of h ''status'' = Some S
              \<and> map_of h ''execution_id'' = Some e \<and> S \<noteq> [] \<and> e \<noteq> [])"
      using False hash by blast
    have "{e. S \<noteq> [] \<and> e \<noteq> [] \<and> (\<exists>k \<in> set (key # ks). \<exists>h. map_of r k = Some (RHash h)
            \<and> map_of h ''status'' = Some S \<and> map_of h ''execution_id'' = Some e)}
        = {e. S \<noteq> [] \<and> e \<noteq> [] \<and> (\<exists>k \<in> set ks. \<exists>h. map_of r k = Some (RHash h)
            \<and> map_of h ''status'' = Some S \<and> map_of h ''execution_id'' = Some e)}"
      using nohit by auto
    with Cons.IH [OF rest ks] show ?thesis
      by simp
  qed
qed

lemma redis_scan_iter_iff:
  "k \<in> set (redis_scan_iter p r) \<longleftrightarrow> take (length p) k = p \<and> map_of r k \<noteq> None"
  by (auto simp: redis_scan_iter_def map_of_eq_None_iff)

lemma clear_all_indexes_metadata:
  "map_of (clear_all_indexes self r) (make_metadata_key self j) = map_of r (make_metadata_key self j)"
  by (auto simp: clear_all_indexes_map_of)

lemma clear_all_indexes_members:
  "S \<in> set statuses \<Longrightarrow> index_members self (clear_all_indexes self r) S = {}"
  by (simp add: index_members_def clear_all_indexes_map_of)

lemma metadata_status_hash:
  "metadata_status self r i = Some S \<longleftrightarrow>
     (\<exists>h. map_of r (make_metadata_key self i) = Some (RHash h) \<and> map_of h ''status'' = Some S)"
  by (auto simp: metadata_status_def redis_hgetall_def split: option.splits rvalue.splits)

lemma metadata_own_idD:
  assumes "metadata_own_id self r" "map_of r (make_metadata_key self j) = Some (RHash h)"
  shows "map_of h ''execution_id'' = Some j"
proof -
  have "make_metadata_key self j \<in> set (redis_scan_iter (prefix self @ ''meta:'') r)"
    using assms(2) by (simp add: redis_scan_iter_iff make_metadata_key_def)
  with assms(1) have "case map_of r (make_metadata_key self j) of
      Some (RHash h) \<Rightarrow> map_of h ''execution_id''
         = Some (drop (length (prefix self @ ''meta:'')) (make_metadata_key self j))
    | _ \<Rightarrow> True"
    unfolding metadata_own_id_def list_all_iff by blast
  with assms(2) show ?thesis
    by (simp add: make_metadata_key_def)
qed

text \<open>
  C2. After \<^verbatim>\<open>rebuild_indexes\<close> has run, an identifier is a member of the index set of a
  status exactly when its metadata hash reports that status, whatever the index sets held
  before. The statuses are the four the code clears, the identifier is not the empty
  string (which \<^verbatim>\<open>rebuild_indexes\<close> passes over), and every metadata hash carries the
  identifier of its own key, as \<^verbatim>\<open>save_state_async\<close> writes it.
\<close>

theorem rebuild_indexes_exact:
  assumes "rebuild_indexes self r = Inr r'"
      and "metadata_own_id self r"
      and "S \<in> set statuses"
      and "i \<noteq> []"
  shows "in_status_index self r' S i \<longleftrightarrow> metadata_status self r' i = Some S"
proof -
  define r0 where "r0 = clear_all_indexes self r"
  define ks where "ks = redis_scan_iter (prefix self @ ''meta:'') r0"
  from assms(1) have run: "rebuild_from self ks r0 = Inr r'"
    by (simp add: rebuild_indexes_def r0_def ks_def Let_def)
  have ks_meta: "list_all (is_metadata_key self) ks"
    by (simp add: ks_def list_all_iff redis_scan_iter_iff is_metadata_key_def)
  have S: "S \<noteq> []"
    using assms(3) by (auto simp: statuses_def)
  have meta: "\<And>j. map_of r' (make_metadata_key self j) = map_of r (make_metadata_key self j)"
  proof -
    fix j
    have "is_metadata_key self (make_metadata_key self j)"
      by (simp add: is_metadata_key_def make_metadata_key_def)
    from rebuild_from_metadata [OF run this] show "map_of r' (make_metadata_key self j) = map_of r (make_metadata_key self j)"
      by (simp add: r0_def clear_all_indexes_metadata)
  qed
  have members: "index_members self r' S =
     {e. e \<noteq> [] \<and> (\<exists>k \<in> set ks. \<exists>h. map_of r0 k = Some (RHash h)
            \<and> map_of h ''status'' = Some S \<and> map_of h ''execution_id'' = Some e)}"
    using rebuild_from_members [OF run ks_meta, of S] S assms(3)
    by (simp add: r0_def clear_all_indexes_members)
  show ?thesis
  proof
    assume "in_status_index self r' S i"
    then have "i \<in> index_members self r' S"
      by (simp add: in_status_index_members)
    with members obtain k h where k: "k \<in> set ks" and h: "map_of r0 k = Some (RHash h)"
      and st: "map_of h ''status'' = Some S" and id: "map_of h ''execution_id'' = Some i"
      by auto
    from k ks_meta have "is_metadata_key self k"
      by (simp add: list_all_iff)
    then obtain j where j: "k = make_metadata_key self j"
      by (auto dest: is_metadata_keyD)
    with h have hr: "map_of r (make_metadata_key self j) = Some (RHash h)"
      by (simp add: r0_def clear_all_indexes_metadata)
    from metadata_own_idD [OF assms(2) hr] id have "j = i"
      by simp
    with hr st show "metadata_status self r' i = Some S"
      by (auto simp: metadata_status_hash meta)
  next
    assume "metadata_status self r' i = Some S"
    then obtain h where hr: "map_of r (make_metadata_key self i) = Some (RHash h)"
      and st: "map_of h ''status'' = Some S"
      by (auto simp: metadata_status_hash meta)
    from metadata_own_idD [OF assms(2) hr] have id: "map_of h ''execution_id'' = Some i" .
    from hr have h0: "map_of r0 (make_metadata_key self i) = Some (RHash h)"
      by (simp add: r0_def clear_all_indexes_metadata)
    then have "make_metadata_key self i \<in> set ks"
      by (simp add: ks_def redis_scan_iter_iff make_metadata_key_def)
    with h0 st id assms(4) have "i \<in> index_members self r' S"
      unfolding members by blast
    then show "in_status_index self r' S i"
      by (simp add: in_status_index_members)
  qed
qed

theorem rebuild_indexes_exact_witness:
  "\<exists>r'. rebuild_indexes default_storage drifted_store = Inr r'
      \<and> in_status_index default_storage r' ''completed'' ''a''
      \<and> metadata_status default_storage r' ''a'' = Some ''completed''
      \<and> \<not> in_status_index default_storage r' ''running'' ''a''
      \<and> \<not> in_status_index default_storage r' ''running'' ''gone''"
proof -
  note ev = rebuild_indexes_def clear_all_indexes_def statuses_def redis_delete_def redis_scan_iter_def
    redis_hgetall_def redis_sadd_def make_index_key_def make_metadata_key_def default_storage_def
    drifted_store_def Let_def
  obtain r' where r': "rebuild_indexes default_storage drifted_store = Inr r'"
    by (simp add: ev)
  have own: "metadata_own_id default_storage drifted_store"
    by (simp add: metadata_own_id_def ev)
  have st: "metadata_status default_storage r' ''a'' = Some ''completed''"
    using r' by (auto simp: metadata_status_def ev)
  have sg: "metadata_status default_storage r' ''gone'' \<noteq> Some ''running''"
    using r' by (auto simp: metadata_status_def ev)
  have c: "''completed'' \<in> set statuses" and ru: "''running'' \<in> set statuses"
    by (simp_all add: statuses_def)
  from rebuild_indexes_exact [OF r' own c, of "''a''"] st
  have 1: "in_status_index default_storage r' ''completed'' ''a''" by simp
  from rebuild_indexes_exact [OF r' own ru, of "''a''"] st
  have 2: "\<not> in_status_index default_storage r' ''running'' ''a''" by simp
  from rebuild_indexes_exact [OF r' own ru, of "''gone''"] sg
  have 3: "\<not> in_status_index default_storage r' ''running'' ''gone''" by simp
  from r' st 1 2 3 show ?thesis by blast
qed

section \<open>Cleaning up\<close>

lemmas cleanup_unfold =
  cleanup_old_executions_async_def replace_Z_def delete_state_async_def load_state_async_def
  redis_get_def redis_smembers_def redis_hgetall_def state_truthy_def metadata_status_def
  failed_state_def resumed_state_def resume_lib_def february_first_def table_lib_def
  default_storage_def string_of_int_def string_of_nat.simps digit_char_def


text \<open>
  C5. The claim: cleanup removes the completed and failed records older than the cutoff
  and leaves every running and paused record untouched. The cleanup visits the members
  of the index sets of \<^verbatim>\<open>completed\<close> and \<^verbatim>\<open>failed\<close>, and \<^verbatim>\<open>save_state_async\<close> leaves an
  identifier in the index of its former status. An execution that failed and was resumed
  is running, with its record in the store, and still a member of the index of
  \<^verbatim>\<open>failed\<close>: a cleanup with a cutoff of seven days, three weeks later, deletes it and
  counts it.
\<close>

theorem cleanup_removes_running_record:
  "\<exists>r1 r2 r3.
      save_state_async resume_lib default_storage ''t1'' ''job'' failed_state [] = Inr r1
    \<and> save_state_async resume_lib default_storage ''t2'' ''job'' resumed_state r1 = Inr r2
    \<and> metadata_status default_storage r2 ''job'' = Some ''running''
    \<and> load_state_async resume_lib default_storage ''job'' r2
         = Inr (Some (add_metadata ''t2'' ''job'' resumed_state))
    \<and> cleanup_old_executions_async resume_lib default_storage february_first 7 r2 = Inr (1, r3)
    \<and> load_state_async resume_lib default_storage ''job'' r3 = Inr None
    \<and> metadata_status default_storage r3 ''job'' = None"
  by (simp add: save_unfold cleanup_unfold)

section \<open>Blocking calls\<close>

lemma pipe_execute_error: "pipe_execute cs r = Inl e \<Longrightarrow> e = ResponseError"
  by (auto simp: pipe_execute_def split: prod.splits if_splits)

lemma encode_mapping_error: "encode_mapping kvs = Inl e \<Longrightarrow> e = DataError"
proof (induction kvs)
  case Nil
  then show ?case by simp
next
  case (Cons kv kvs)
  obtain k v where kv: "kv = (k, v)" by (cases kv)
  show ?case
  proof (cases v)
    case PyNone
    with Cons.prems kv show ?thesis by simp
  next
    case (PyStr s)
    with Cons kv show ?thesis by (auto split: sum.splits)
  next
    case (PyInt n)
    with Cons kv show ?thesis by (auto split: sum.splits)
  qed
qed

lemma load_state_async_error:
  "load_state_async lib st i r = Inl e \<Longrightarrow> e = ResponseError \<or> e = TypeError \<or> e = ValueError"
  by (auto simp: load_state_async_def redis_get_def
           split: option.splits rvalue.splits json_value.splits construction.splits)

lemma save_state_async_error:
  assumes "save_state_async lib st now i s r = Inl e"
  shows "e = ResponseError \<or> e = DataError"
proof (cases "encode_mapping (metadata_of i (add_metadata now i s))")
  case (Inl e')
  with assms have "e = e'"
    by (simp add: save_state_async_def Let_def)
  with Inl show ?thesis
    by (auto dest: encode_mapping_error)
next
  case (Inr m)
  let ?cs = "[SET (make_key st i) (json_dumps lib (add_metadata now i s)), HSET (make_metadata_key st i) m,
              SADD (make_index_key st (py_str (py_get_default (add_metadata now i s) ''status'' (PyStr ''running'')))) i]"
  from assms Inr have "pipe_execute ?cs r = Inl e"
    by (cases "pipe_execute ?cs r") (auto simp: save_state_async_def Let_def)
  then show ?thesis
    by (auto dest: pipe_execute_error)
qed

text \<open>
  C8. Called inside a running event loop, \<^verbatim>\<open>load_checkpoint\<close>, \<^verbatim>\<open>get_execution_info\<close>
  and \<^verbatim>\<open>load_by_id\<close> raise \<^verbatim>\<open>RuntimeError\<close> at once and leave the store as it is, and
  no operation of the storage raises that error. \<^verbatim>\<open>save_checkpoint\<close>,
  \<^verbatim>\<open>mark_completed\<close> and \<^verbatim>\<open>mark_failed\<close> do not fail there: they create a task for
  the running loop and return, the store not yet changed.
\<close>

theorem blocking_call_in_running_loop:
  "fst (load_checkpoint lib deserialize_state self RunningLoop r)
     = Raised (RuntimeError ''asyncio.run() cannot be called from a running event loop'')
 \<and> snd (load_checkpoint lib deserialize_state self RunningLoop r) = r
 \<and> get_execution_info lib self RunningLoop r
     = (Raised (RuntimeError ''asyncio.run() cannot be called from a running event loop''), r)
 \<and> load_by_id lib generated RunningLoop i st r
     = (Raised (RuntimeError ''asyncio.run() cannot be called from a running event loop''), r)
 \<and> save_checkpoint lib self RunningLoop now state r = (TaskCreated, r)
 \<and> mark_completed lib self RunningLoop now r = (TaskCreated, r)
 \<and> mark_failed lib self RunningLoop now err r = (TaskCreated, r)
 \<and> (load_state_async lib st i r = Inl e \<longrightarrow> \<not> is_RuntimeError e)
 \<and> (save_state_async lib st now i state r = Inl e \<longrightarrow> \<not> is_RuntimeError e)"
proof -
  have "load_state_async lib st i r = Inl e \<longrightarrow> \<not> is_RuntimeError e"
    by (auto dest: load_state_async_error simp: is_RuntimeError_def)
  moreover have "save_state_async lib st now i state r = Inl e \<longrightarrow> \<not> is_RuntimeError e"
    by (auto dest: save_state_async_error simp: is_RuntimeError_def)
  ultimately show ?thesis
    by (simp add: load_checkpoint_def get_execution_info_def load_by_id_def save_checkpoint_def
          mark_completed_def mark_failed_def asyncio_run_def)
qed

theorem blocking_call_in_running_loop_witness:
  "load_state_async sample_lib default_storage ''job'' wrong_types = Inl ResponseError
 \<and> save_state_async sample_lib default_storage ''t1'' ''job'' checkpoint_fetch wrong_types = Inl ResponseError
 \<and> \<not> is_RuntimeError ResponseError
 \<and> fst (load_checkpoint sample_lib id (manager False) RunningLoop wrong_types)
      = Raised (RuntimeError ''asyncio.run() cannot be called from a running event loop'')
 \<and> mark_failed sample_lib (manager False) RunningLoop ''t1'' ''timeout'' wrong_types
      = (TaskCreated, wrong_types)"
proof -
  have ld: "load_state_async sample_lib default_storage ''job'' wrong_types = Inl ResponseError"
    by (simp add: load_state_async_def redis_get_def make_key_def default_storage_def wrong_types_def)
  have sv: "save_state_async sample_lib default_storage ''t1'' ''job'' checkpoint_fetch wrong_types
              = Inl ResponseError"
    by (simp add: run_unfold wrong_types_def)
  note inst = blocking_call_in_running_loop
    [where lib = sample_lib and deserialize_state = id and self = "manager False" and r = wrong_types
       and now = "''t1''" and state = checkpoint_fetch and err = "''timeout''"
       and st = default_storage and i = "''job''" and e = ResponseError]
  from inst ld have 1: "\<not> is_RuntimeError ResponseError"
    by blast
  from inst have 2: "fst (load_checkpoint sample_lib id (manager False) RunningLoop wrong_types)
      = Raised (RuntimeError ''asyncio.run() cannot be called from a running event loop'')"
    by blast
  from inst have 3: "mark_failed sample_lib (manager False) RunningLoop ''t1'' ''timeout'' wrong_types
      = (TaskCreated, wrong_types)"
    by blast
  from ld sv 1 2 3 show ?thesis
    by blast
qed

text \<open>
  The claim of C8 as it stands, that every blocking call fails inside a running loop,
  is false of \<^verbatim>\<open>save_checkpoint\<close>: it returns after creating a task.
\<close>

theorem save_checkpoint_in_running_loop_does_not_fail:
  "save_checkpoint sample_lib (manager False) RunningLoop ''t1'' checkpoint_fetch [] = (TaskCreated, [])"
  by (simp add: save_checkpoint_def)

section \<open>The store under save and delete\<close>

text \<open>
  Two facts behind the statements above. A save never takes an identifier out of an index
  set, whatever status it writes: this is how an index comes to list identifiers whose
  status has changed. And the condition under which \<^verbatim>\<open>rebuild_indexes\<close> is exact, that
  every metadata hash carries the identifier of its own key, holds of the empty server
  and is kept by every save and every delete.
\<close>

lemma metadata_own_id_iff:
  "metadata_own_id self r \<longleftrightarrow>
     (\<forall>j h. map_of r (make_metadata_key self j) = Some (RHash h) \<longrightarrow> map_of h ''execution_id'' = Some j)"
proof
  assume "metadata_own_id self r"
  then show "\<forall>j h. map_of r (make_metadata_key self j) = Some (RHash h) \<longrightarrow> map_of h ''execution_id'' = Some j"
    by (auto dest: metadata_own_idD)
next
  assume a: "\<forall>j h. map_of r (make_metadata_key self j) = Some (RHash h) \<longrightarrow> map_of h ''execution_id'' = Some j"
  show "metadata_own_id self r"
    unfolding metadata_own_id_def list_all_iff
  proof
    fix k assume "k \<in> set (redis_scan_iter (prefix self @ ''meta:'') r)"
    then have "is_metadata_key self k"
      by (simp add: redis_scan_iter_iff is_metadata_key_def)
    then obtain j where j: "k = make_metadata_key self j"
      by (auto dest: is_metadata_keyD)
    have "drop (length (prefix self @ ''meta:'')) (make_metadata_key self j) = j"
      by (simp add: make_metadata_key_def)
    with a j show "case map_of r k of
        Some (RHash h) \<Rightarrow> map_of h ''execution_id'' = Some (drop (length (prefix self @ ''meta:'')) k)
      | _ \<Rightarrow> True"
      by (auto split: option.splits rvalue.splits)
  qed
qed

lemma hset_fields_other:
  "k \<notin> fst ` set m \<Longrightarrow> map_of (hset_fields m h) k = map_of h k"
  unfolding hset_fields_def
  by (induction m arbitrary: h) (auto simp: AList.update_conv')

lemma hset_fields_first:
  "k \<notin> fst ` set m \<Longrightarrow> map_of (hset_fields ((k, v) # m) h) k = Some v"
  using hset_fields_other [of k m "AList.update k v h"]
  by (simp add: hset_fields_def AList.update_conv')

lemma encode_mapping_keys:
  "encode_mapping kvs = Inr m \<Longrightarrow> map fst m = map fst kvs"
proof (induction kvs arbitrary: m)
  case Nil
  then show ?case by simp
next
  case (Cons kv kvs)
  obtain k v where kv: "kv = (k, v)" by (cases kv)
  with Cons.prems obtain s m' where "redis_encode v = Inr s" "encode_mapping kvs = Inr m'" "m = (k, s) # m'"
    by (auto split: sum.splits)
  with Cons.IH [of m'] kv show ?case by simp
qed

lemma encode_metadata_of:
  assumes "encode_mapping (metadata_of i s) = Inr m"
  shows "\<exists>m'. m = (''execution_id'', i) # m' \<and> ''execution_id'' \<notin> fst ` set m'"
proof -
  obtain rest where rest: "metadata_of i s = (''execution_id'', PyStr i) # rest"
    and names: "set (map fst rest) \<subseteq> {''status'', ''step_index'', ''step_name'', ''timestamp'', ''saved_at'', ''error''}"
    by (auto simp: metadata_of_def)
  from assms rest obtain m' where m: "m = (''execution_id'', i) # m'" and m': "encode_mapping rest = Inr m'"
    by (auto split: sum.splits)
  from encode_mapping_keys [OF m'] names have "''execution_id'' \<notin> set (map fst m')"
    by auto
  with m show ?thesis by simp
qed

lemma save_state_async_own_id:
  assumes "save_state_async lib self now i s r = Inr r'" and "metadata_own_id self r"
  shows "metadata_own_id self r'"
proof -
  from save_state_async_Inr [OF assms(1)] obtain m where
    enc: "encode_mapping (metadata_of i (add_metadata now i s)) = Inr m"
    and r': "r' = snd (pipe_run [SET (make_key self i) (json_dumps lib (add_metadata now i s)),
                         HSET (make_metadata_key self i) m,
                         SADD (make_index_key self
                           (py_str (py_get_default (add_metadata now i s) ''status'' (PyStr ''running'')))) i] r)"
    by blast
  define ra where "ra = snd (redis_command (SET (make_key self i) (json_dumps lib (add_metadata now i s))) r)"
  define rb where "rb = snd (redis_command (HSET (make_metadata_key self i) m) ra)"
  define ix where "ix = make_index_key self (py_str (py_get_default (add_metadata now i s) ''status'' (PyStr ''running'')))"
  have r'_eq: "r' = snd (redis_command (SADD ix i) rb)"
    unfolding r' pipe_run_3 ra_def rb_def ix_def ..
  from encode_metadata_of [OF enc] obtain m' where
    m: "m = (''execution_id'', i) # m'" and fresh: "''execution_id'' \<notin> fst ` set m'"
    by blast
  show ?thesis
    unfolding metadata_own_id_iff
  proof (intro allI impI)
    fix j h
    assume h: "map_of r' (make_metadata_key self j) = Some (RHash h)"
    have "map_of r' (make_metadata_key self j) = map_of rb (make_metadata_key self j)"
      unfolding r'_eq by (rule redis_command_other_key) (simp add: ix_def)
    with h have hb: "map_of rb (make_metadata_key self j) = Some (RHash h)"
      by simp
    show "map_of h ''execution_id'' = Some j"
    proof (cases "j = i")
      case True
      from hb True have "\<exists>h0. h = hset_fields m h0"
        by (auto simp: rb_def AList.update_conv' split: option.splits rvalue.splits)
      then obtain h0 where "h = hset_fields m h0" ..
      with m fresh True show ?thesis
        by (simp add: hset_fields_first)
    next
      case False
      then have "make_metadata_key self i \<noteq> make_metadata_key self j"
        by (simp add: make_metadata_key_def)
      then have "map_of rb (make_metadata_key self j) = map_of ra (make_metadata_key self j)"
        unfolding rb_def by (intro redis_command_other_key) simp
      with hb have ha: "map_of ra (make_metadata_key self j) = Some (RHash h)"
        by simp
      then have "map_of r (make_metadata_key self j) = Some (RHash h)"
        by (auto simp: ra_def AList.update_conv' split: if_splits)
      with assms(2) show ?thesis
        by (simp add: metadata_own_id_iff)
    qed
  qed
qed

lemma metadata_own_id_empty: "metadata_own_id self []"
  by (simp add: metadata_own_id_def redis_scan_iter_def)

lemma redis_command_removal_hash:
  "is_removal c \<Longrightarrow> map_of (snd (redis_command c r)) k = Some (RHash h) \<Longrightarrow> map_of r k = Some (RHash h)"
  by (cases c) (auto simp: AList.update_conv' AList.delete_conv' split: option.splits rvalue.splits if_splits)

lemma pipe_run_removal_hash:
  "list_all is_removal cs \<Longrightarrow> map_of (snd (pipe_run cs r)) k = Some (RHash h) \<Longrightarrow> map_of r k = Some (RHash h)"
proof (induction cs arbitrary: r)
  case Nil
  then show ?case by simp
next
  case (Cons c cs)
  from Cons.prems have "map_of (snd (pipe_run cs (snd (redis_command c r)))) k = Some (RHash h)"
    by (simp only: pipe_run_Cons_snd)
  with Cons.IH [of "snd (redis_command c r)"] Cons.prems(1)
  have "map_of (snd (redis_command c r)) k = Some (RHash h)"
    by simp
  with Cons.prems(1) show ?case
    by (auto dest: redis_command_removal_hash)
qed

lemma delete_state_async_own_id:
  assumes "delete_state_async lib self i r = Inr (deleted, r')" and "metadata_own_id self r"
  shows "metadata_own_id self r'"
proof -
  from assms(1) obtain state where st: "load_state_async lib self i r = Inr state"
    by (auto simp: delete_state_async_def split: sum.splits)
  define cs where "cs = [DEL (make_key self i), DEL (make_metadata_key self i)] @
     (if state_truthy state
      then [SREM (make_index_key self (py_str (py_get_default (the state) ''status'' (PyStr ''running'')))) i]
      else [])"
  have cs: "list_all is_removal cs"
    by (simp add: cs_def)
  from assms(1) st have "r' = snd (pipe_run cs r)"
    unfolding delete_state_async_def pipe_execute_def Let_def cs_def
    by (auto simp del: pipe_run.simps split: sum.splits prod.splits if_splits)
  with cs assms(2) show ?thesis
    unfolding metadata_own_id_iff by (blast dest: pipe_run_removal_hash)
qed

lemma redis_command_keeps_member:
  assumes "x \<in> index_members self r S" and "\<not> is_overwrite c \<or> command_key c \<noteq> make_index_key self S"
    and "\<forall>k y. c \<noteq> SREM k y"
  shows "x \<in> index_members self (snd (redis_command c r)) S"
proof (cases "command_key c = make_index_key self S")
  case False
  then have "map_of (snd (redis_command c r)) (make_index_key self S) = map_of r (make_index_key self S)"
    by (rule redis_command_other_key)
  with assms(1) show ?thesis
    by (simp add: index_members_def)
next
  case True
  with assms show ?thesis
    by (cases c) (auto simp: index_members_def AList.update_conv' split: option.splits rvalue.splits)
qed

lemma save_state_async_keeps_members:
  assumes "save_state_async lib self now i s r = Inr r'"
      and "in_status_index self r S j"
      and "make_key self i \<noteq> make_index_key self S"
  shows "in_status_index self r' S j"
proof -
  from save_state_async_run [OF assms(1)] obtain m ix where
    r': "r' = snd (redis_command (SADD ix i)
                  (snd (redis_command (HSET (make_metadata_key self i) m)
                     (snd (redis_command (SET (make_key self i) (json_dumps lib (add_metadata now i s))) r)))))"
    by blast
  from assms(2) have 0: "j \<in> index_members self r S"
    by (simp add: in_status_index_members)
  have 1: "j \<in> index_members self
             (snd (redis_command (SET (make_key self i) (json_dumps lib (add_metadata now i s))) r)) S"
    by (rule redis_command_keeps_member [OF 0]) (use assms(3) in simp_all)
  have 2: "j \<in> index_members self
             (snd (redis_command (HSET (make_metadata_key self i) m)
                (snd (redis_command (SET (make_key self i) (json_dumps lib (add_metadata now i s))) r)))) S"
    by (rule redis_command_keeps_member [OF 1]) simp_all
  have "j \<in> index_members self r' S"
    unfolding r' by (rule redis_command_keeps_member [OF 2]) simp_all
  then show ?thesis
    by (simp add: in_status_index_members)
qed

end
